theory Spec2Isabelle
  imports Main "HOL-Library.Sublist" "HOL-Library.AList"
begin

section \<open>Strings and parsed JSON values\<close>

text \<open>
  A text is a \<^typ>\<open>string\<close> holding the UTF-8 encoding of a Python \<open>str\<close>: one
  character per byte, an ASCII character being its own encoding.  UTF-8 is
  self-synchronising, so Python's \<open>sub in s\<close>, the contiguous-substring test on code
  points, is \<^const>\<open>sublist\<close> \<open>sub s\<close> on the encodings.
\<close>

definition is_ascii :: "char \<Rightarrow> bool" where
  "is_ascii c \<longleftrightarrow> \<not> digit7 c"

definition is_continuation :: "char \<Rightarrow> bool" where
  "is_continuation c \<longleftrightarrow> digit7 c \<and> \<not> digit6 c"

text \<open>The code points of a text: every byte that is no continuation byte starts one.\<close>

fun code_points :: "string \<Rightarrow> string list" where
  "code_points [] = []"
| "code_points (c # cs) =
     (case code_points cs of
        [] \<Rightarrow> [[c]]
      | p # ps \<Rightarrow> if is_continuation (hd p) then (c # p) # ps else [c] # p # ps)"

text \<open>
  The code points \<open>str.strip()\<close> removes: tab, line feed, vertical tab, form feed,
  carriage return, the four separators 0x1C to 0x1F and space; and beyond ASCII
  U+0085, U+00A0, U+1680, U+2000 to U+200A, U+2028, U+2029, U+202F, U+205F and U+3000.
\<close>

definition ascii_space :: "char \<Rightarrow> bool" where
  "ascii_space c \<longleftrightarrow>
     c \<in> set [CHR 0x09, CHR 0x0A, CHR 0x0B, CHR 0x0C, CHR 0x0D,
               CHR 0x1C, CHR 0x1D, CHR 0x1E, CHR 0x1F, CHR 0x20]"

definition unicode_spaces :: "string list" where
  "unicode_spaces =
     [[CHR 0xC2, CHR 0x85], [CHR 0xC2, CHR 0xA0], [CHR 0xE1, CHR 0x9A, CHR 0x80],
      [CHR 0xE2, CHR 0x80, CHR 0x80], [CHR 0xE2, CHR 0x80, CHR 0x81],
      [CHR 0xE2, CHR 0x80, CHR 0x82], [CHR 0xE2, CHR 0x80, CHR 0x83],
      [CHR 0xE2, CHR 0x80, CHR 0x84], [CHR 0xE2, CHR 0x80, CHR 0x85],
      [CHR 0xE2, CHR 0x80, CHR 0x86], [CHR 0xE2, CHR 0x80, CHR 0x87],
      [CHR 0xE2, CHR 0x80, CHR 0x88], [CHR 0xE2, CHR 0x80, CHR 0x89],
      [CHR 0xE2, CHR 0x80, CHR 0x8A], [CHR 0xE2, CHR 0x80, CHR 0xA8],
      [CHR 0xE2, CHR 0x80, CHR 0xA9], [CHR 0xE2, CHR 0x80, CHR 0xAF],
      [CHR 0xE2, CHR 0x81, CHR 0x9F], [CHR 0xE3, CHR 0x80, CHR 0x80]]"

definition is_space :: "string \<Rightarrow> bool" where
  "is_space p \<longleftrightarrow> (case p of [c] \<Rightarrow> ascii_space c | _ \<Rightarrow> p \<in> set unicode_spaces)"

definition strip :: "string \<Rightarrow> string" where
  "strip s = concat (rev (dropWhile is_space (rev (dropWhile is_space (code_points s)))))"

text \<open>
  \<open>str.lower()\<close>.  An ASCII character is lowered by the table of the letters A to Z,
  whatever surrounds it.  What the Unicode tables of Python make of text beyond ASCII
  is not in the sources and is a parameter: the lowering of a maximal run of non-ASCII
  bytes, as a function of the text before the run, the run, and the text after it up to
  the next ASCII white space.  Python lowers code point by code point; the one rule that
  looks around, for the capital sigma, reads on only over cased and case-ignorable
  characters, and white space is neither.  A lowering may yield ASCII characters, as
  the Kelvin sign U+212A yields \<open>k\<close>.
\<close>

definition lower_char :: "char \<Rightarrow> char" where
  "lower_char c =
     (case map_of (zip ''ABCDEFGHIJKLMNOPQRSTUVWXYZ'' ''abcdefghijklmnopqrstuvwxyz'') c of
        Some d \<Rightarrow> d
      | None \<Rightarrow> c)"

type_synonym lowering = "string \<Rightarrow> string \<Rightarrow> string \<Rightarrow> string"

function lower_from :: "lowering \<Rightarrow> string \<Rightarrow> string \<Rightarrow> string" where
  "lower_from u before [] = []"
| "lower_from u before (c # cs) =
     (if is_ascii c then lower_char c # lower_from u (before @ [c]) cs
      else (let run = c # takeWhile (\<lambda>x. \<not> is_ascii x) cs;
                after = dropWhile (\<lambda>x. \<not> is_ascii x) cs
            in u before run (takeWhile (\<lambda>x. \<not> ascii_space x) after)
               @ lower_from u (before @ run) after))"
  by pat_completeness auto
termination
  by (relation "measure (\<lambda>(u, before, s). length s)")
     (auto simp: length_dropWhile_le le_imp_less_Suc)

declare lower_from.simps [simp del]

definition lower :: "lowering \<Rightarrow> string \<Rightarrow> string" where
  "lower u s = lower_from u [] s"

text \<open>The UTF-8 encoding of the em dash that occurs in the source's messages.\<close>

definition em_dash :: string where
  "em_dash = [CHR 0xE2, CHR 0x80, CHR 0x94]"

text \<open>
  What \<open>json.loads\<close> returns: \<open>None\<close>, a bool, a number, a string, a list or a dict.
  A dict is an association list in document order; of a repeated key the last value
  counts and the first position is kept, as in Python.  Of a number only its being zero
  or not is ever observed, so numbers are integers here.
\<close>

datatype json =
    JNull
  | JBool bool
  | JNum int
  | JStr string
  | JList "json list"
  | JObj "(string \<times> json) list"

definition dict_get :: "(string \<times> json) list \<Rightarrow> string \<Rightarrow> json option" where
  "dict_get kvs k = map_of (rev kvs) k"

definition dict_keys :: "(string \<times> json) list \<Rightarrow> string list" where
  "dict_keys kvs = rev (remdups (rev (map fst kvs)))"

text \<open>Python truthiness of a parsed value.\<close>

fun truthy :: "json \<Rightarrow> bool" where
  "truthy JNull = False"
| "truthy (JBool b) = b"
| "truthy (JNum n) = (n \<noteq> 0)"
| "truthy (JStr s) = (s \<noteq> [])"
| "truthy (JList xs) = (xs \<noteq> [])"
| "truthy (JObj kvs) = (kvs \<noteq> [])"

datatype error =
    EngineFailure string
  | AttributeError
  | TypeError
  | KeyError string
  | ApiException string
  | ClassificationUnavailable

text \<open>\<open>for x in v\<close>: a list yields its elements, a string its code points, a dict its
  keys; anything else is not iterable.\<close>

fun py_iter :: "json \<Rightarrow> error + json list" where
  "py_iter (JList xs) = Inr xs"
| "py_iter (JStr s) = Inr (map JStr (code_points s))"
| "py_iter (JObj kvs) = Inr (map JStr (dict_keys kvs))"
| "py_iter _ = Inl TypeError"

text \<open>\<open>len(v)\<close>.\<close>

fun py_len :: "json \<Rightarrow> error + nat" where
  "py_len (JList xs) = Inr (length xs)"
| "py_len (JStr s) = Inr (length (code_points s))"
| "py_len (JObj kvs) = Inr (length (dict_keys kvs))"
| "py_len _ = Inl TypeError"

section \<open>Observable effects\<close>

text \<open>
  Every call that leaves the process is recorded, in order: a call of the reasoning
  engine (with the component that made it), a pause between classification attempts,
  and the reads and writes on the cluster backend.
\<close>

datatype component = Classifier | Incident | Infrastructure | Pipeline

datatype event =
    EngineCall component
  | Sleep nat
  | ListPods string
  | ReadLog string string
  | DeletePod string string
  | PatchScale string string int

fun is_mutation :: "event \<Rightarrow> bool" where
  "is_mutation (DeletePod _ _) = True"
| "is_mutation (PatchScale _ _ _) = True"
| "is_mutation _ = False"

fun is_engine_call :: "event \<Rightarrow> bool" where
  "is_engine_call (EngineCall _) = True"
| "is_engine_call _ = False"

text \<open>
  A computation yields the events it caused and either the exception that ended it or
  its value.  \<open>io_bind\<close> is sequencing: an exception skips what follows, and the
  events so far are kept.
\<close>

type_synonym 'a io = "event list \<times> (error + 'a)"

definition io_return :: "'a \<Rightarrow> 'a io" where
  "io_return x = ([], Inr x)"

definition io_raise :: "error \<Rightarrow> 'a io" where
  "io_raise e = ([], Inl e)"

definition io_bind :: "'a io \<Rightarrow> ('a \<Rightarrow> 'b io) \<Rightarrow> 'b io" where
  "io_bind m f =
     (case m of
        (tr, Inl e) \<Rightarrow> (tr, Inl e)
      | (tr, Inr x) \<Rightarrow> (case f x of (tr', r) \<Rightarrow> (tr @ tr', r)))"

definition io_map :: "('a \<Rightarrow> 'b) \<Rightarrow> 'a io \<Rightarrow> 'b io" where
  "io_map f m = (case m of (tr, Inl e) \<Rightarrow> (tr, Inl e) | (tr, Inr x) \<Rightarrow> (tr, Inr (f x)))"

section \<open>Infrastructure agent: the policy table\<close>

record policy_rule =
  pol_description :: string
  pol_check :: "lowering \<Rightarrow> string \<Rightarrow> bool"

text \<open>\<open>POLICIES\<close>, in declaration order.\<close>

definition POLICIES :: "(string \<times> policy_rule) list" where
  "POLICIES =
    [(''no_public_s3'',
        \<lparr>pol_description = ''S3 buckets must not have public access'',
         pol_check = (\<lambda>u tf. \<not> sublist ''public'' (lower u tf) \<or> sublist ''block_public'' (lower u tf))\<rparr>),
     (''enforce_tagging'',
        \<lparr>pol_description = ''All resources must have environment and owner tags'',
         pol_check = (\<lambda>u tf. sublist ''tags'' (lower u tf))\<rparr>),
     (''instance_size_limit'',
        \<lparr>pol_description = ''EC2 instances must not exceed xlarge in non-prod'',
         pol_check = (\<lambda>u tf. \<not> sublist ''2xlarge'' tf \<or> \<not> sublist ''4xlarge'' tf)\<rparr>),
     (''encryption_required'',
        \<lparr>pol_description = ''Storage resources must have encryption enabled'',
         pol_check = (\<lambda>u tf. sublist ''encrypted'' (lower u tf) \<or> sublist ''kms'' (lower u tf)
                            \<or> \<not> sublist ''s3'' (lower u tf))\<rparr>)]"

record violation =
  v_policy :: string
  v_description :: string
  v_severity :: string

text \<open>The loop of \<open>_validate_policies\<close> over a policy table.\<close>

fun validate_loop ::
  "lowering \<Rightarrow> (string \<times> policy_rule) list \<Rightarrow> string \<Rightarrow> string \<Rightarrow> violation list" where
  "validate_loop u [] tf environment = []"
| "validate_loop u ((name, p) # rest) tf environment =
     (if name = ''instance_size_limit'' \<and> environment = ''production''
      then validate_loop u rest tf environment
      else if \<not> pol_check p u tf
      then \<lparr>v_policy = name, v_description = pol_description p, v_severity = ''high''\<rparr>
             # validate_loop u rest tf environment
      else validate_loop u rest tf environment)"

definition validate_policies :: "lowering \<Rightarrow> string \<Rightarrow> string \<Rightarrow> violation list" where
  "validate_policies u tf environment = validate_loop u POLICIES tf environment"

text \<open>The names of the violated rules, in order.\<close>

definition violated :: "lowering \<Rightarrow> string \<Rightarrow> string \<Rightarrow> string list" where
  "violated u tf environment = map v_policy (validate_policies u tf environment)"

subsection \<open>Cost estimate\<close>

text \<open>
  \<open>cost_map\<close> with the price \<open>_estimate_cost\<close> takes from each entry: the \<open>base\<close>
  price, or the first price of the entry when it has none.  The prices are whole numbers.
\<close>

definition cost_map :: "(string \<times> nat) list" where
  "cost_map =
    [(''aws_instance'', 8), (''aws_eks_cluster'', 73), (''aws_rds_instance'', 13),
     (''aws_s3_bucket'', 2), (''aws_elasticache'', 25)]"

text \<open>\<open>resource.replace("aws_", "")\<close> on the keys of \<open>cost_map\<close>, each of which has the
  prefix once and nowhere else.\<close>

definition strip_aws :: "string \<Rightarrow> string" where
  "strip_aws r = (if prefix ''aws_'' r then drop 4 r else r)"

record cost_estimate =
  estimated_monthly_usd :: nat
  resources_detected :: "string list"

definition estimate_cost :: "lowering \<Rightarrow> string \<Rightarrow> cost_estimate" where
  "estimate_cost u tf =
     (let found = filter (\<lambda>(resource, base). sublist (strip_aws resource) (lower u tf)) cost_map
      in \<lparr>estimated_monthly_usd = sum_list (map snd found),
          resources_detected = map fst found\<rparr>)"

subsection \<open>The handler\<close>

record infra_result =
  ir_plan :: json
  ir_approved :: bool
  ir_violations :: "violation list"
  ir_policies_checked :: nat
  ir_cost_estimate :: cost_estimate
  ir_dry_run :: bool
  ir_would_apply :: bool

text \<open>
  \<open>InfrastructureAgent.plan\<close>, given the lowering.  The engine is a function of the
  environment and the request; its value is the parsed reply, or the failure of the call
  or of the parsing.
  A reply that is no dict has no \<open>get\<close>, and a \<open>terraform_code\<close> that is no string
  has no \<open>lower\<close>: both raise.
\<close>

definition plan ::
  "lowering \<Rightarrow> (string \<Rightarrow> string \<Rightarrow> error + json) \<Rightarrow> string \<Rightarrow> string \<Rightarrow> bool
     \<Rightarrow> event list \<times> (error + infra_result)" where
  "plan u engine request environment dry_run =
     ([EngineCall Infrastructure],
      (case engine environment request of
         Inl e \<Rightarrow> Inl e
       | Inr (JObj kvs) \<Rightarrow>
           (case (case dict_get kvs ''terraform_code'' of None \<Rightarrow> JStr [] | Some v \<Rightarrow> v) of
              JStr tf \<Rightarrow>
                (let violations = validate_policies u tf environment;
                     cost = estimate_cost u tf;
                     approved = (length violations = 0)
                 in Inr \<lparr>ir_plan = JObj kvs,
                         ir_approved = approved,
                         ir_violations = violations,
                         ir_policies_checked = length POLICIES,
                         ir_cost_estimate = cost,
                         ir_dry_run = dry_run,
                         ir_would_apply = (approved \<and> \<not> dry_run)\<rparr>)
            | _ \<Rightarrow> Inl AttributeError)
       | Inr _ \<Rightarrow> Inl AttributeError))"

section \<open>Pipeline agent: the quick-win detector\<close>

text \<open>
  What \<open>_parse_workflow\<close> records about one job.  \<open>needs\<close> is whatever the workflow
  document holds under that key (a name, a list of names), and the empty list when the
  job declares none.
\<close>

record job =
  steps :: nat
  runs_on :: json
  needs :: json
  has_cache :: bool
  has_matrix :: bool
  has_artifacts :: bool
  uses_actions :: "string list"

text \<open>The analysis of a workflow: an error marker, or the job count, the jobs by name
  (in document order) and the triggers.\<close>

datatype analysis =
    AnalysisError string
  | Analysis nat "(string \<times> job) list" "string list"

text \<open>The description of a suggestion is kept as its template and arguments; the
  rendering into one string is not modelled.\<close>

datatype description =
    NoCaching string
  | ManySteps string nat
  | NoArtifacts string
  | AlreadyParallel "string list"

record suggestion =
  s_type :: string
  s_job :: string
  s_impact :: string
  s_description :: description

text \<open>The body of the loop over the jobs in \<open>_detect_quick_wins\<close>.\<close>

definition job_suggestions :: "nat \<Rightarrow> string \<times> job \<Rightarrow> suggestion list" where
  "job_suggestions total_jobs nj =
     (case nj of (job_name, j) \<Rightarrow>
        (if \<not> has_cache j
         then [\<lparr>s_type = ''caching'', s_job = job_name, s_impact = ''high'',
                 s_description = NoCaching job_name\<rparr>]
         else [])
      @ (if steps j > 8 \<and> \<not> has_matrix j
         then [\<lparr>s_type = ''parallelization'', s_job = job_name, s_impact = ''medium'',
                 s_description = ManySteps job_name (steps j)\<rparr>]
         else [])
      @ (if \<not> has_artifacts j \<and> total_jobs > 1
         then [\<lparr>s_type = ''artifacts'', s_job = job_name, s_impact = ''low'',
                 s_description = NoArtifacts job_name\<rparr>]
         else []))"

definition detect_quick_wins :: "analysis \<Rightarrow> suggestion list" where
  "detect_quick_wins a =
     (case a of
        AnalysisError _ \<Rightarrow> []
      | Analysis total_jobs jobs _ \<Rightarrow>
          (let independent = map fst (filter (\<lambda>(name, j). \<not> truthy (needs j)) jobs)
           in concat (map (job_suggestions total_jobs) jobs)
              @ (if length independent > 1
                 then [\<lparr>s_type = ''parallelization'', s_job = ''workflow'', s_impact = ''high'',
                         s_description = AlreadyParallel independent\<rparr>]
                 else [])))"

record pipeline_result =
  workflow_analysis :: analysis
  quick_wins :: "suggestion list"
  ai_suggestions :: json
  summary_total_jobs :: nat
  optimization_opportunities :: nat

text \<open>
  \<open>PipelineAgent.optimize\<close>.  Loading the workflow document and extracting its
  structure is given as the function \<open>parse\<close>, the engine as a function of the
  repository and the document.
\<close>

definition optimize ::
  "(string \<Rightarrow> error + analysis) \<Rightarrow> (string \<Rightarrow> string \<Rightarrow> error + json) \<Rightarrow> string \<Rightarrow> string
     \<Rightarrow> pipeline_result io" where
  "optimize parse engine repo workflow_content =
     io_bind ([], parse workflow_content) (\<lambda>a.
     io_bind ([EngineCall Pipeline], engine repo workflow_content) (\<lambda>llm_suggestions.
       (case llm_suggestions of
          JObj kvs \<Rightarrow>
            (let ai = (case dict_get kvs ''suggestions'' of None \<Rightarrow> JList [] | Some v \<Rightarrow> v)
             in io_bind ([], py_len ai) (\<lambda>n.
                io_return
                  \<lparr>workflow_analysis = a,
                   quick_wins = detect_quick_wins a,
                   ai_suggestions = ai,
                   summary_total_jobs =
                     (case a of Analysis total_jobs _ _ \<Rightarrow> total_jobs | AnalysisError _ \<Rightarrow> 0),
                   optimization_opportunities = length (detect_quick_wins a) + n\<rparr>))
        | _ \<Rightarrow> io_raise AttributeError)))"

section \<open>Incident agent\<close>

text \<open>The allow-list of the source.\<close>

definition SAFE_ACTIONS :: "string set" where
  "SAFE_ACTIONS = {''restart_pod'', ''scale_up_deployment''}"

text \<open>
  The cluster backend: whether a configuration could be loaded, and the outcome of each
  API call.  A pod as the API lists it has a name, a phase and, per container, a
  restart count and a readiness flag; the list of containers may be missing.
\<close>

record k8s_pod =
  pod_name :: string
  pod_phase :: string
  container_statuses :: "(int \<times> bool) list option"

record backend =
  k8s_available :: bool
  list_namespaced_pod :: "string \<Rightarrow> error + k8s_pod list"
  read_namespaced_pod_log :: "string \<Rightarrow> string \<Rightarrow> nat \<Rightarrow> error + string"
  delete_namespaced_pod :: "string \<Rightarrow> string \<Rightarrow> error option"
  patch_namespaced_deployment_scale :: "string \<Rightarrow> string \<Rightarrow> int \<Rightarrow> error option"

text \<open>An entry of the pod status list: the summary of a pod, or the marker that stands
  for the whole list when the cluster is not available.\<close>

datatype pod_entry =
    PodInfo string string int bool
  | PodError string

definition pod_summary :: "k8s_pod \<Rightarrow> pod_entry" where
  "pod_summary p =
     (let cs = (case container_statuses p of None \<Rightarrow> [] | Some l \<Rightarrow> l)
      in PodInfo (pod_name p) (pod_phase p) (sum_list (map fst cs)) (list_all snd cs))"

definition get_pod_status :: "backend \<Rightarrow> string \<Rightarrow> pod_entry list io" where
  "get_pod_status b namespace =
     (if \<not> k8s_available b then io_return [PodError ''K8s not available'']
      else ([ListPods namespace],
            (case list_namespaced_pod b namespace of
               Inl e \<Rightarrow> Inl e
             | Inr items \<Rightarrow> Inr (map pod_summary items))))"

definition get_pod_logs :: "backend \<Rightarrow> string \<Rightarrow> string \<Rightarrow> string io" where
  "get_pod_logs b pod namespace =
     (if \<not> k8s_available b
      then io_return (''K8s not available '' @ em_dash @ '' cannot fetch logs'')
      else ([ReadLog pod namespace],
            (case read_namespaced_pod_log b pod namespace 50 of
               Inr logs \<Rightarrow> Inr logs
             | Inl (ApiException reason) \<Rightarrow> Inr (''Failed to fetch logs: '' @ reason)
             | Inl e \<Rightarrow> Inl e)))"

definition restart_pod :: "backend \<Rightarrow> string \<Rightarrow> string \<Rightarrow> string io" where
  "restart_pod b pod namespace =
     (if \<not> k8s_available b then io_return ''K8s not available''
      else ([DeletePod pod namespace],
            (case delete_namespaced_pod b pod namespace of
               Some e \<Rightarrow> Inl e
             | None \<Rightarrow>
                 Inr (''Pod '' @ pod @ '' deleted '' @ em_dash @ '' controller will recreate it''))))"

text \<open>\<open>_scale_deployment\<close> with the replica count already rendered for the message.
  The source defines it; \<open>analyze\<close> never calls it.\<close>

definition scale_deployment :: "backend \<Rightarrow> string \<Rightarrow> string \<Rightarrow> int \<Rightarrow> string \<Rightarrow> string io" where
  "scale_deployment b deployment namespace replicas shown =
     (if \<not> k8s_available b then io_return ''K8s not available''
      else ([PatchScale deployment namespace replicas],
            (case patch_namespaced_deployment_scale b deployment namespace replicas of
               Some e \<Rightarrow> Inl e
             | None \<Rightarrow> Inr (''Deployment '' @ deployment @ '' scaled to '' @ shown @ '' replicas''))))"

text \<open>\<open>not p.get("ready") or p.get("restarts", 0) > 3\<close>; the marker entry has no
  \<open>ready\<close> key, and \<open>not None\<close> holds.\<close>

fun is_unhealthy :: "pod_entry \<Rightarrow> bool" where
  "is_unhealthy (PodInfo name phase restarts ready) = (\<not> ready \<or> restarts > 3)"
| "is_unhealthy (PodError _) = True"

text \<open>\<open>pod["name"]\<close>.\<close>

fun entry_name :: "pod_entry \<Rightarrow> error + string" where
  "entry_name (PodInfo name phase restarts ready) = Inr name"
| "entry_name (PodError _) = Inl (KeyError ''name'')"

text \<open>The loop that fetches the logs of the given pods into a dict.\<close>

fun collect_logs :: "backend \<Rightarrow> string \<Rightarrow> pod_entry list \<Rightarrow> (string \<times> string) list
    \<Rightarrow> (string \<times> string) list io" where
  "collect_logs b namespace [] pod_logs = io_return pod_logs"
| "collect_logs b namespace (pod # pods) pod_logs =
     io_bind ([], entry_name pod) (\<lambda>name.
     io_bind (get_pod_logs b name namespace) (\<lambda>logs.
     collect_logs b namespace pods (AList.update name logs pod_logs)))"

text \<open>
  The body of the loop over the proposed actions: the entries it appends to
  \<open>executed\<close>, each an action with its result.
\<close>

definition skipped_message :: string where
  "skipped_message = ''Requires deployment name '' @ em_dash @ '' skipped''"

definition remediate :: "backend \<Rightarrow> string \<Rightarrow> pod_entry list \<Rightarrow> json \<Rightarrow> (string \<times> string) list io" where
  "remediate b namespace unhealthy action =
     (if action = JStr ''restart_pod'' \<and> unhealthy \<noteq> []
      then io_bind ([], entry_name (hd unhealthy)) (\<lambda>name.
           io_bind (restart_pod b name namespace) (\<lambda>result.
           io_return [(''restart_pod'', result)]))
      else if action = JStr ''scale_up_deployment''
      then io_return [(''scale_up_deployment'', skipped_message)]
      else io_return [])"

fun execute_actions :: "backend \<Rightarrow> string \<Rightarrow> pod_entry list \<Rightarrow> json list
    \<Rightarrow> (string \<times> string) list io" where
  "execute_actions b namespace unhealthy [] = io_return []"
| "execute_actions b namespace unhealthy (action # actions) =
     io_bind (remediate b namespace unhealthy action) (\<lambda>first.
     io_bind (execute_actions b namespace unhealthy actions) (\<lambda>others.
     io_return (first @ others)))"

text \<open>
  The remediation step of \<open>analyze\<close>.  The reply of the engine is read only under
  severity \<open>high\<close>; a reply that is no dict has no \<open>get\<close>, and a truthy
  \<open>safe_actions\<close> that cannot be iterated raises.
\<close>

definition run_remediations :: "backend \<Rightarrow> string \<Rightarrow> string \<Rightarrow> pod_entry list \<Rightarrow> json
    \<Rightarrow> (string \<times> string) list io" where
  "run_remediations b severity namespace unhealthy analysis =
     (if severity = ''high''
      then (case analysis of
              JObj kvs \<Rightarrow>
                (case dict_get kvs ''safe_actions'' of
                   None \<Rightarrow> io_return []
                 | Some v \<Rightarrow>
                     if truthy v
                     then io_bind ([], py_iter v) (execute_actions b namespace unhealthy)
                     else io_return [])
            | _ \<Rightarrow> io_raise AttributeError)
      else io_return [])"

record incident_result =
  analysis_of :: json
  total_pods :: nat
  unhealthy_pods :: nat
  auto_executed :: "(string \<times> string) list"

text \<open>
  \<open>IncidentAgent.analyze\<close>.  The engine is a function of the description, the
  severity and the cluster context it is shown; its value is the parsed reply, or the
  failure of the call or of the parsing.
\<close>

type_synonym incident_engine =
  "string \<Rightarrow> string \<Rightarrow> pod_entry list \<Rightarrow> pod_entry list \<Rightarrow> (string \<times> string) list \<Rightarrow> error + json"

definition analyze :: "backend \<Rightarrow> incident_engine \<Rightarrow> string \<Rightarrow> string \<Rightarrow> string
    \<Rightarrow> incident_result io" where
  "analyze b engine description severity namespace =
     io_bind (get_pod_status b namespace) (\<lambda>pod_status.
     (let unhealthy = filter is_unhealthy pod_status
      in io_bind (collect_logs b namespace (take 3 unhealthy) []) (\<lambda>pod_logs.
         io_bind ([EngineCall Incident],
                  engine description severity pod_status unhealthy pod_logs) (\<lambda>analysis.
         io_bind (run_remediations b severity namespace unhealthy analysis) (\<lambda>executed.
         io_return
           \<lparr>analysis_of = analysis,
            total_pods = length pod_status,
            unhealthy_pods = length unhealthy,
            auto_executed = executed\<rparr>)))))"

text \<open>The gate as the specification words it, for comparison with the code.\<close>

definition spec_may_auto_execute :: "string \<Rightarrow> string \<Rightarrow> bool" where
  "spec_may_auto_execute action_id severity \<longleftrightarrow> severity = ''high'' \<and> action_id \<in> SAFE_ACTIONS"

section \<open>Orchestrator\<close>

text \<open>Everything outside the process that a request can reach, and the lowering of
  the Python runtime.\<close>

record world =
  str_lower :: lowering
  classify_reply :: "nat \<Rightarrow> string \<Rightarrow> error + string option"
  incident_reply :: incident_engine
  infra_reply :: "string \<Rightarrow> string \<Rightarrow> error + json"
  pipeline_reply :: "string \<Rightarrow> string \<Rightarrow> error + json"
  parse_workflow :: "string \<Rightarrow> error + analysis"
  cluster :: backend

text \<open>
  The body of \<open>_classify_intent\<close>, at the given attempt: the call of the engine, whose
  reply may be a failure, no content at all (\<open>None\<close> has no \<open>strip\<close>) or a text, which
  is trimmed and lower-cased.
\<close>

definition classify_attempt :: "world \<Rightarrow> string \<Rightarrow> nat \<Rightarrow> string io" where
  "classify_attempt w text n =
     ([EngineCall Classifier],
      (case classify_reply w n text of
         Inl e \<Rightarrow> Inl e
       | Inr None \<Rightarrow> Inl AttributeError
       | Inr (Some content) \<Rightarrow> Inr (lower (str_lower w) (strip content))))"

text \<open>
  Modelled from the spec: the decorator \<open>retry\<close> with \<open>stop_after_attempt\<close> and
  \<open>wait_exponential\<close> comes from the library tenacity, which is not among the sources.
  The specification gives up to 3 attempts in total, a pause between attempts that grows
  exponentially from 1 time unit and is capped at 10, every failure of the body retried
  alike, and failure with \<open>ClassificationUnavailable\<close> after the last attempt.  The
  numbers 3, 1 and 10 are the arguments of the decorator in the source.
\<close>

definition stop_after_attempt :: nat where
  "stop_after_attempt = 3"

definition wait_exponential :: "nat \<Rightarrow> nat" where
  "wait_exponential attempt = max 1 (min (2 ^ (attempt - 1)) 10)"

function retry :: "(nat \<Rightarrow> 'a io) \<Rightarrow> nat \<Rightarrow> 'a io" where
  "retry body attempt =
     (case body attempt of
        (tr, Inr v) \<Rightarrow> (tr, Inr v)
      | (tr, Inl e) \<Rightarrow>
          if stop_after_attempt \<le> attempt then (tr, Inl ClassificationUnavailable)
          else (case retry body (Suc attempt) of
                  (tr', r) \<Rightarrow> (tr @ Sleep (wait_exponential attempt) # tr', r)))"
  by pat_completeness auto
termination
  by (relation "measure (\<lambda>(body, attempt). stop_after_attempt - attempt)") auto

declare retry.simps [simp del]

definition classify_intent :: "world \<Rightarrow> string \<Rightarrow> string io" where
  "classify_intent w text = retry (classify_attempt w text) 1"

definition handle_incident :: "world \<Rightarrow> string \<Rightarrow> string \<Rightarrow> string \<Rightarrow> incident_result io" where
  "handle_incident w description severity namespace =
     analyze (cluster w) (incident_reply w) description severity namespace"

definition handle_infrastructure :: "world \<Rightarrow> string \<Rightarrow> string \<Rightarrow> bool \<Rightarrow> infra_result io" where
  "handle_infrastructure w request environment dry_run =
     plan (str_lower w) (infra_reply w) request environment dry_run"

definition handle_pipeline :: "world \<Rightarrow> string \<Rightarrow> string \<Rightarrow> pipeline_result io" where
  "handle_pipeline w repo workflow_content =
     optimize (parse_workflow w) (pipeline_reply w) repo workflow_content"

datatype route_result =
    UnknownIntent string "string list"
  | IncidentResult incident_result
  | InfraResult infra_result
  | PipelineResult pipeline_result

text \<open>The table \<open>handlers\<close> of \<open>route\<close>, in its order.\<close>

definition handlers :: "world \<Rightarrow> string \<Rightarrow> (string \<times> (unit \<Rightarrow> route_result io)) list" where
  "handlers w text =
     [(''incident'', \<lambda>_. io_map IncidentResult (handle_incident w text ''medium'' ''default'')),
      (''infrastructure'', \<lambda>_. io_map InfraResult (handle_infrastructure w text ''staging'' True)),
      (''pipeline'', \<lambda>_. io_map PipelineResult (handle_pipeline w [] text))]"

definition route :: "world \<Rightarrow> string \<Rightarrow> route_result io" where
  "route w text =
     io_bind (classify_intent w text) (\<lambda>intent.
       (case map_of (handlers w text) intent of
          None \<Rightarrow> io_return (UnknownIntent (''Unknown intent: '' @ intent)
                               (map fst (handlers w text)))
        | Some handler \<Rightarrow> handler ()))"

section \<open>Notions of the specification and concrete inputs\<close>

text \<open>
  The passing indicators of a rule: the keywords whose presence its check accepts.
  The check of \<open>instance_size_limit\<close> accepts no keyword; it passes by absence only.
\<close>

definition passing_indicators :: "string \<Rightarrow> string list" where
  "passing_indicators rule =
     (if rule = ''no_public_s3'' then [''block_public'']
      else if rule = ''enforce_tagging'' then [''tags'']
      else if rule = ''encryption_required'' then [''encrypted'', ''kms'']
      else [])"

text \<open>A lowering under which no text beyond ASCII has a lower case of its own.\<close>

definition caseless :: lowering where
  "caseless before run after = run"

text \<open>An engine that answers every infrastructure request with the given artifact, and
  one that answers with an encrypted, tagged bucket.\<close>

definition replying_artifact :: "string \<Rightarrow> string \<Rightarrow> string \<Rightarrow> error + json" where
  "replying_artifact tf environment request = Inr (JObj [(''terraform_code'', JStr tf)])"

definition demo_infra_engine :: "string \<Rightarrow> string \<Rightarrow> error + json" where
  "demo_infra_engine environment request =
     Inr (JObj [(''terraform_code'', JStr ''s3_bucket logs encrypted tags''),
                (''explanation'', JStr ''a bucket'')])"

text \<open>
  A cluster with one pod that is not ready and has restarted five times, and a cluster
  whose only pod is healthy.  Every API call succeeds.
\<close>

definition crashing_cluster :: backend where
  "crashing_cluster =
     \<lparr>k8s_available = True,
      list_namespaced_pod = (\<lambda>namespace.
         Inr [\<lparr>pod_name = ''web-1'', pod_phase = ''Running'',
               container_statuses = Some [(5, False)]\<rparr>]),
      read_namespaced_pod_log = (\<lambda>pod namespace tail. Inr ''OOMKilled''),
      delete_namespaced_pod = (\<lambda>pod namespace. None),
      patch_namespaced_deployment_scale = (\<lambda>deployment namespace replicas. None)\<rparr>"

definition healthy_cluster :: backend where
  "healthy_cluster =
     \<lparr>k8s_available = True,
      list_namespaced_pod = (\<lambda>namespace.
         Inr [\<lparr>pod_name = ''web-1'', pod_phase = ''Running'',
               container_statuses = Some [(0, True)]\<rparr>]),
      read_namespaced_pod_log = (\<lambda>pod namespace tail. Inr ''ready''),
      delete_namespaced_pod = (\<lambda>pod namespace. None),
      patch_namespaced_deployment_scale = (\<lambda>deployment namespace replicas. None)\<rparr>"

text \<open>
  The actions that a reply of the engine proposes, as the handler reads them: the
  elements of \<open>safe_actions\<close> when the reply is a dict that has it, truthy and
  iterable.  The identifiers among them are the strings; any other element names no
  action.
\<close>

definition proposed_actions :: "json \<Rightarrow> json list" where
  "proposed_actions analysis =
     (case analysis of
        JObj kvs \<Rightarrow>
          (case dict_get kvs ''safe_actions'' of
             None \<Rightarrow> []
           | Some v \<Rightarrow> if truthy v then (case py_iter v of Inr acts \<Rightarrow> acts | Inl e \<Rightarrow> []) else [])
      | _ \<Rightarrow> [])"

fun action_ids :: "json list \<Rightarrow> string list" where
  "action_ids [] = []"
| "action_ids (JStr a # rest) = a # action_ids rest"
| "action_ids (_ # rest) = action_ids rest"

text \<open>An engine that proposes the given actions, whatever it is asked.\<close>

definition proposing :: "string list \<Rightarrow> incident_engine" where
  "proposing actions description severity pod_status unhealthy pod_logs =
     Inr (JObj [(''root_cause'', JStr ''out of memory''),
                (''safe_actions'', JList (map JStr actions))])"

text \<open>A job of three steps with no cache, matrix, artifacts or dependencies, and a
  workflow of two such jobs.\<close>

definition plain_job :: job where
  "plain_job =
     \<lparr>steps = 3, runs_on = JStr ''ubuntu-latest'', needs = JList [], has_cache = False,
      has_matrix = False, has_artifacts = False, uses_actions = [''actions/checkout'']\<rparr>"

definition two_jobs :: analysis where
  "two_jobs = Analysis 2 [(''build'', plain_job), (''test'', plain_job)] [''push'']"

text \<open>
  A world whose classifier answers the attempts as given, whose incident engine always
  proposes \<open>restart_pod\<close>, and whose cluster has the crashing pod.
\<close>

definition answering :: "(nat \<Rightarrow> error + string option) \<Rightarrow> world" where
  "answering replies =
     \<lparr>str_lower = caseless,
      classify_reply = (\<lambda>attempt text. replies attempt),
      incident_reply = proposing [''restart_pod''],
      infra_reply = demo_infra_engine,
      pipeline_reply = (\<lambda>repo workflow_content. Inr (JObj [(''suggestions'', JList [])])),
      parse_workflow = (\<lambda>workflow_content. Inr two_jobs),
      cluster = crashing_cluster\<rparr>"

text \<open>Two failures and then the answer, and nothing but failures.\<close>

definition twice_failing :: "string \<Rightarrow> nat \<Rightarrow> error + string option" where
  "twice_failing content attempt =
     (if attempt < 3 then Inl (EngineFailure ''timeout'') else Inr (Some content))"

definition always_failing :: "nat \<Rightarrow> error + string option" where
  "always_failing attempt = Inl (EngineFailure ''timeout'')"

text \<open>The dispatch of \<open>route\<close>, by the intent.\<close>

definition dispatch :: "world \<Rightarrow> string \<Rightarrow> string \<Rightarrow> route_result io" where
  "dispatch w text intent =
     (if intent = ''incident''
      then io_map IncidentResult (handle_incident w text ''medium'' ''default'')
      else if intent = ''infrastructure''
      then io_map InfraResult (handle_infrastructure w text ''staging'' True)
      else if intent = ''pipeline''
      then io_map PipelineResult (handle_pipeline w [] text)
      else io_return (UnknownIntent (''Unknown intent: '' @ intent)
                        [''incident'', ''infrastructure'', ''pipeline'']))"

section \<open>The policy table\<close>

subsection \<open>The table, unfolded\<close>

lemma validate_policies_unfold:
  "validate_policies u tf environment =
     (if \<not> sublist ''public'' (lower u tf) \<or> sublist ''block_public'' (lower u tf) then []
      else [\<lparr>v_policy = ''no_public_s3'',
              v_description = ''S3 buckets must not have public access'',
              v_severity = ''high''\<rparr>])
   @ (if sublist ''tags'' (lower u tf) then []
      else [\<lparr>v_policy = ''enforce_tagging'',
              v_description = ''All resources must have environment and owner tags'',
              v_severity = ''high''\<rparr>])
   @ (if environment = ''production'' \<or> \<not> sublist ''2xlarge'' tf \<or> \<not> sublist ''4xlarge'' tf
      then []
      else [\<lparr>v_policy = ''instance_size_limit'',
              v_description = ''EC2 instances must not exceed xlarge in non-prod'',
              v_severity = ''high''\<rparr>])
   @ (if sublist ''encrypted'' (lower u tf) \<or> sublist ''kms'' (lower u tf)
         \<or> \<not> sublist ''s3'' (lower u tf)
      then []
      else [\<lparr>v_policy = ''encryption_required'',
              v_description = ''Storage resources must have encryption enabled'',
              v_severity = ''high''\<rparr>])"
  by (simp add: validate_policies_def POLICIES_def)

lemma violated_unfold:
  "violated u tf environment =
     (if \<not> sublist ''public'' (lower u tf) \<or> sublist ''block_public'' (lower u tf)
      then [] else [''no_public_s3''])
   @ (if sublist ''tags'' (lower u tf) then [] else [''enforce_tagging''])
   @ (if environment = ''production'' \<or> \<not> sublist ''2xlarge'' tf \<or> \<not> sublist ''4xlarge'' tf
      then [] else [''instance_size_limit''])
   @ (if sublist ''encrypted'' (lower u tf) \<or> sublist ''kms'' (lower u tf)
         \<or> \<not> sublist ''s3'' (lower u tf)
      then [] else [''encryption_required''])"
  by (simp add: violated_def validate_policies_unfold)

subsection \<open>Lowering and substrings\<close>

lemma lower_from_ascii:
  "\<forall>c \<in> set s. is_ascii c \<Longrightarrow> lower_from u before s = map lower_char s"
  by (induction s arbitrary: before) (simp_all add: lower_from.simps)

lemma lower_ascii:
  "\<forall>c \<in> set s. is_ascii c \<Longrightarrow> lower u s = map lower_char s"
  by (simp add: lower_def lower_from_ascii)

lemma ascii_space_cases:
  assumes "ascii_space c"
  shows "c \<in> {CHR 0x09, CHR 0x0A, CHR 0x0B, CHR 0x0C, CHR 0x0D,
               CHR 0x1C, CHR 0x1D, CHR 0x1E, CHR 0x1F, CHR 0x20}"
  using assms by (simp add: ascii_space_def)

lemma lower_char_space:
  assumes "ascii_space c"
  shows "lower_char c = c \<and> is_ascii c"
  using ascii_space_cases [OF assms]
  by (elim insertE emptyE) (simp_all add: lower_char_def is_ascii_def)

text \<open>Text that follows white space does not change the lowering of what stands before
  the white space.\<close>

lemma lower_from_separated:
  assumes "ascii_space sp"
  shows "lower_from u before (s @ sp # t)
       = lower_from u before s @ sp # lower_from u (before @ s @ [sp]) t"
proof (induction u before s rule: lower_from.induct)
  case (1 u before)
  from assms show ?case by (simp add: lower_from.simps lower_char_space)
next
  case (2 u before c cs)
  show ?case
  proof (cases "is_ascii c")
    case True
    with 2(1) show ?thesis by (simp add: lower_from.simps)
  next
    case False
    let ?run = "c # takeWhile (\<lambda>x. \<not> is_ascii x) cs"
    let ?after = "dropWhile (\<lambda>x. \<not> is_ascii x) cs"
    from assms have sp: "is_ascii sp" by (simp add: lower_char_space)
    have run: "takeWhile (\<lambda>x. \<not> is_ascii x) (cs @ sp # t) = takeWhile (\<lambda>x. \<not> is_ascii x) cs"
      using sp by (simp add: takeWhile_tail)
    have after: "dropWhile (\<lambda>x. \<not> is_ascii x) (cs @ sp # t) = ?after @ sp # t"
      using sp by (simp add: dropWhile_append3)
    have word: "takeWhile (\<lambda>x. \<not> ascii_space x) (?after @ sp # t)
              = takeWhile (\<lambda>x. \<not> ascii_space x) ?after"
      using assms by (simp add: takeWhile_tail)
    have whole: "?run @ ?after = c # cs" by simp
    from 2(2) [OF False refl refl]
    have "lower_from u (before @ ?run) (?after @ sp # t)
        = lower_from u (before @ ?run) ?after @ sp # lower_from u (before @ (c # cs) @ [sp]) t"
      using whole by (metis append.assoc)
    with False run after word show ?thesis
      by (simp add: lower_from.simps Let_def)
  qed
qed

lemma lower_separated:
  assumes "ascii_space sp" and "\<forall>c \<in> set t. is_ascii c"
  shows "lower u (s @ sp # t) = lower u s @ sp # map lower_char t"
  using assms by (simp add: lower_def lower_from_separated lower_from_ascii)

lemma sublist_append_fresh:
  assumes "c \<notin> set k"
  shows "sublist k (a @ c # b) \<longleftrightarrow> sublist k a \<or> sublist k b"
proof
  assume "sublist k (a @ c # b)"
  then consider "sublist k a" | "sublist k (c # b)"
    | x1 x2 where "k = x1 @ x2" "suffix x1 a" "prefix x2 (c # b)"
    by (auto simp: sublist_append)
  then show "sublist k a \<or> sublist k b"
  proof cases
    case 1
    then show ?thesis by simp
  next
    case 2
    then have "prefix k (c # b) \<or> sublist k b" by (simp add: sublist_Cons_right)
    moreover have "k = []" if "prefix k (c # b)"
      using that assms by (cases k) auto
    ultimately show ?thesis by auto
  next
    case 3
    have "x2 = []" using 3(1,3) assms by (cases x2) auto
    with 3 have "suffix k a" by simp
    then show ?thesis by (auto simp: suffix_imp_sublist)
  qed
next
  assume "sublist k a \<or> sublist k b"
  then show "sublist k (a @ c # b)"
    by (auto simp: sublist_append sublist_Cons_right)
qed


lemma size_limit_violated_iff:
  "''instance_size_limit'' \<in> set (violated u tf environment)
   \<longleftrightarrow> environment \<noteq> ''production'' \<and> sublist ''2xlarge'' tf \<and> sublist ''4xlarge'' tf"
  by (simp add: violated_unfold)


subsection \<open>The size limit\<close>

text \<open>
  Claim C3.  Outside production the rule \<open>instance_size_limit\<close> ought to fail on every
  artifact that asks for a large size.  The check of the source passes unless both
  markers occur: an artifact with only \<open>2xlarge\<close>, or only \<open>4xlarge\<close>, has no
  violation in staging, and only one with both is caught.
\<close>

theorem size_limit_misses_single_marker:
  "violated u ''tags m5.2xlarge'' ''staging'' = []
   \<and> violated u ''tags m5.4xlarge'' ''staging'' = []
   \<and> violated u ''tags m5.4xlarge m5.2xlarge'' ''staging'' = [''instance_size_limit'']"
proof -
  have low: "lower u ''tags m5.2xlarge'' = ''tags m5.2xlarge''"
    "lower u ''tags m5.4xlarge'' = ''tags m5.4xlarge''"
    "lower u ''tags m5.4xlarge m5.2xlarge'' = ''tags m5.4xlarge m5.2xlarge''"
    by (simp_all add: lower_ascii is_ascii_def lower_char_def)
  show ?thesis
    by (simp add: violated_unfold low sublist_code)
qed

subsection \<open>The infrastructure handler\<close>

lemma plan_trace:
  "fst (plan u engine request environment dry_run) = [EngineCall Infrastructure]"
  by (simp add: plan_def)

lemma plan_reads_artifact:
  assumes "engine environment request = Inr (JObj kvs)"
    and "dict_get kvs ''terraform_code'' = Some (JStr tf)"
  shows "snd (plan u engine request environment dry_run)
       = Inr \<lparr>ir_plan = JObj kvs,
              ir_approved = (validate_policies u tf environment = []),
              ir_violations = validate_policies u tf environment,
              ir_policies_checked = length POLICIES,
              ir_cost_estimate = estimate_cost u tf,
              ir_dry_run = dry_run,
              ir_would_apply = (validate_policies u tf environment = [] \<and> \<not> dry_run)\<rparr>"
  using assms by (simp add: plan_def Let_def)

lemma plan_result:
  assumes "snd (plan u engine request environment dry_run) = Inr r"
  shows "ir_approved r = (ir_violations r = [])
       \<and> ir_would_apply r = (ir_approved r \<and> \<not> dry_run)
       \<and> ir_dry_run r = dry_run"
proof (cases "engine environment request")
  case (Inl e)
  with assms show ?thesis by (simp add: plan_def)
next
  case (Inr reply)
  show ?thesis
  proof (cases reply)
    case (JObj kvs)
    show ?thesis
    proof (cases "case dict_get kvs ''terraform_code'' of None \<Rightarrow> JStr [] | Some v \<Rightarrow> v")
      case (JStr tf)
      with assms Inr JObj show ?thesis by (auto simp: plan_def Let_def)
    qed (use assms Inr JObj in \<open>simp_all add: plan_def\<close>)
  qed (use assms Inr in \<open>simp_all add: plan_def\<close>)
qed


text \<open>
  Claim C6.  For every request, environment and dry-run flag the handler calls the
  engine once and nothing else (it applies nothing); in every result \<open>approved\<close> holds
  exactly when there is no violation, and \<open>would_apply\<close> is \<open>approved\<close> and not
  \<open>dry_run\<close>; and a reply that carries an artifact text does yield a result, whose
  violations are those of the policy table on that text.
\<close>

theorem plan_approval:
  "fst (plan u engine request environment dry_run) = [EngineCall Infrastructure]
   \<and> (\<forall>r. snd (plan u engine request environment dry_run) = Inr r \<longrightarrow>
          ir_approved r = (ir_violations r = [])
          \<and> ir_would_apply r = (ir_approved r \<and> \<not> dry_run)
          \<and> ir_dry_run r = dry_run)
   \<and> (\<forall>kvs tf. engine environment request = Inr (JObj kvs)
          \<and> dict_get kvs ''terraform_code'' = Some (JStr tf) \<longrightarrow>
          (\<exists>r. snd (plan u engine request environment dry_run) = Inr r
               \<and> ir_violations r = validate_policies u tf environment))"
  using plan_trace plan_result by (auto simp: plan_reads_artifact)

theorem plan_approval_witness:
  "fst (plan caseless (replying_artifact ''s3_bucket logs encrypted tags'')
          ''a bucket for logs'' ''staging'' False) = [EngineCall Infrastructure]
   \<and> (\<exists>r. snd (plan caseless (replying_artifact ''s3_bucket logs encrypted tags'')
                  ''a bucket for logs'' ''staging'' False) = Inr r
          \<and> ir_violations r = [] \<and> ir_approved r \<and> ir_would_apply r)
   \<and> (\<exists>r. snd (plan caseless (replying_artifact ''s3_bucket logs encrypted tags'')
                  ''a bucket for logs'' ''staging'' True) = Inr r
          \<and> ir_violations r = [] \<and> ir_approved r \<and> \<not> ir_would_apply r)"
proof -
  let ?tf = "''s3_bucket logs encrypted tags''"
  let ?kvs = "[(''terraform_code'', JStr ?tf)]"
  let ?engine = "replying_artifact ?tf"
  have low: "lower caseless ?tf = ?tf"
    by (simp add: lower_ascii is_ascii_def lower_char_def)
  have art: "validate_policies caseless ?tf ''staging'' = []"
    by (simp add: validate_policies_unfold low sublist_code)
  have reply: "?engine ''staging'' ''a bucket for logs'' = Inr (JObj ?kvs)"
    by (simp add: replying_artifact_def)
  have get: "dict_get ?kvs ''terraform_code'' = Some (JStr ?tf)"
    by (simp add: dict_get_def)
  have run: "fst (plan caseless ?engine ''a bucket for logs'' ''staging'' d) = [EngineCall Infrastructure]
      \<and> (\<exists>r. snd (plan caseless ?engine ''a bucket for logs'' ''staging'' d) = Inr r
            \<and> ir_violations r = [] \<and> ir_approved r \<and> ir_would_apply r = (\<not> d))" for d
  proof -
    from plan_approval [of caseless ?engine "''a bucket for logs''" "''staging''" d] reply get
    obtain r where r: "snd (plan caseless ?engine ''a bucket for logs'' ''staging'' d) = Inr r"
      "ir_violations r = validate_policies caseless ?tf ''staging''"
      by blast
    with plan_approval [of caseless ?engine "''a bucket for logs''" "''staging''" d]
    have "ir_approved r = (ir_violations r = [])" "ir_would_apply r = (ir_approved r \<and> \<not> d)"
      by blast+
    with r art plan_approval [of caseless ?engine "''a bucket for logs''" "''staging''" d]
    show ?thesis by auto
  qed
  from run [of False] run [of True] show ?thesis by simp
qed

subsection \<open>The rule that production skips\<close>







subsection \<open>Appending a passing indicator\<close>

lemma indicator_cases:
  assumes "ind \<in> set (passing_indicators R)"
  shows "R = ''no_public_s3'' \<and> ind = ''block_public''
       \<or> R = ''enforce_tagging'' \<and> ind = ''tags''
       \<or> R = ''encryption_required'' \<and> ind = ''encrypted''
       \<or> R = ''encryption_required'' \<and> ind = ''kms''"
  using assms by (auto simp: passing_indicators_def split: if_splits)

text \<open>White space occurs in none of the keywords that the checks look for.\<close>

lemma keyword_separated:
  assumes "ascii_space sep"
    and "k \<in> {''public'', ''block_public'', ''tags'', ''encrypted'', ''kms'', ''s3'',
              ''2xlarge'', ''4xlarge''}"
  shows "sublist k (a @ sep # b) \<longleftrightarrow> sublist k a \<or> sublist k b"
proof (rule sublist_append_fresh)
  from ascii_space_cases [OF assms(1)] assms(2) show "sep \<notin> set k"
    by (elim insertE emptyE) simp_all
qed

lemma lower_with_indicator:
  assumes "ascii_space sep"
    and "ind \<in> {''block_public'', ''tags'', ''encrypted'', ''kms''}"
  shows "lower u (tf @ sep # ind) = lower u tf @ sep # ind"
proof -
  from assms(2) have "(\<forall>c \<in> set ind. is_ascii c) \<and> map lower_char ind = ind"
    by (elim insertE emptyE) (simp_all add: is_ascii_def lower_char_def)
  with lower_separated [OF assms(1), of ind u tf] show ?thesis by simp
qed

lemma separated_block_public:
  assumes "ascii_space sep" and "''no_public_s3'' \<in> set (violated u tf env)"
  shows "validate_policies u (tf @ sep # ''block_public'') env
       = filter (\<lambda>v. v_policy v \<noteq> ''no_public_s3'') (validate_policies u tf env)"
proof -
  have low: "lower u (tf @ sep # ''block_public'') = lower u tf @ sep # ''block_public''"
    using assms(1) by (rule lower_with_indicator) simp
  have "sublist ''block_public'' (lower u tf @ sep # ''block_public'')"
    by (simp add: sublist_append sublist_Cons_right)
  moreover have "sublist ''tags'' (lower u tf @ sep # ''block_public'') = sublist ''tags'' (lower u tf)"
       "sublist ''encrypted'' (lower u tf @ sep # ''block_public'') = sublist ''encrypted'' (lower u tf)"
       "sublist ''kms'' (lower u tf @ sep # ''block_public'') = sublist ''kms'' (lower u tf)"
       "sublist ''s3'' (lower u tf @ sep # ''block_public'') = sublist ''s3'' (lower u tf)"
       "sublist ''2xlarge'' (tf @ sep # ''block_public'') = sublist ''2xlarge'' tf"
       "sublist ''4xlarge'' (tf @ sep # ''block_public'') = sublist ''4xlarge'' tf"
    using assms(1) by (simp_all add: keyword_separated sublist_code)
  ultimately show ?thesis
    using assms(2)
    by (simp add: validate_policies_unfold violated_unfold low split: if_splits)
qed

lemma separated_tags:
  assumes "ascii_space sep" and "''enforce_tagging'' \<in> set (violated u tf env)"
  shows "validate_policies u (tf @ sep # ''tags'') env
       = filter (\<lambda>v. v_policy v \<noteq> ''enforce_tagging'') (validate_policies u tf env)"
proof -
  have low: "lower u (tf @ sep # ''tags'') = lower u tf @ sep # ''tags''"
    using assms(1) by (rule lower_with_indicator) simp
  have "sublist ''tags'' (lower u tf @ sep # ''tags'')"
    by (simp add: sublist_append sublist_Cons_right)
  moreover have "sublist ''public'' (lower u tf @ sep # ''tags'') = sublist ''public'' (lower u tf)"
       "sublist ''block_public'' (lower u tf @ sep # ''tags'') = sublist ''block_public'' (lower u tf)"
       "sublist ''encrypted'' (lower u tf @ sep # ''tags'') = sublist ''encrypted'' (lower u tf)"
       "sublist ''kms'' (lower u tf @ sep # ''tags'') = sublist ''kms'' (lower u tf)"
       "sublist ''s3'' (lower u tf @ sep # ''tags'') = sublist ''s3'' (lower u tf)"
       "sublist ''2xlarge'' (tf @ sep # ''tags'') = sublist ''2xlarge'' tf"
       "sublist ''4xlarge'' (tf @ sep # ''tags'') = sublist ''4xlarge'' tf"
    using assms(1) by (simp_all add: keyword_separated sublist_code)
  ultimately show ?thesis
    using assms(2)
    by (simp add: validate_policies_unfold violated_unfold low split: if_splits)
qed

lemma separated_encrypted:
  assumes "ascii_space sep" and "''encryption_required'' \<in> set (violated u tf env)"
  shows "validate_policies u (tf @ sep # ''encrypted'') env
       = filter (\<lambda>v. v_policy v \<noteq> ''encryption_required'') (validate_policies u tf env)"
proof -
  have low: "lower u (tf @ sep # ''encrypted'') = lower u tf @ sep # ''encrypted''"
    using assms(1) by (rule lower_with_indicator) simp
  have "sublist ''encrypted'' (lower u tf @ sep # ''encrypted'')"
    by (simp add: sublist_append sublist_Cons_right)
  moreover have "sublist ''public'' (lower u tf @ sep # ''encrypted'') = sublist ''public'' (lower u tf)"
       "sublist ''block_public'' (lower u tf @ sep # ''encrypted'')
          = sublist ''block_public'' (lower u tf)"
       "sublist ''tags'' (lower u tf @ sep # ''encrypted'') = sublist ''tags'' (lower u tf)"
       "sublist ''2xlarge'' (tf @ sep # ''encrypted'') = sublist ''2xlarge'' tf"
       "sublist ''4xlarge'' (tf @ sep # ''encrypted'') = sublist ''4xlarge'' tf"
    using assms(1) by (simp_all add: keyword_separated sublist_code)
  ultimately show ?thesis
    using assms(2)
    by (simp add: validate_policies_unfold violated_unfold low split: if_splits)
qed

lemma separated_kms:
  assumes "ascii_space sep" and "''encryption_required'' \<in> set (violated u tf env)"
  shows "validate_policies u (tf @ sep # ''kms'') env
       = filter (\<lambda>v. v_policy v \<noteq> ''encryption_required'') (validate_policies u tf env)"
proof -
  have low: "lower u (tf @ sep # ''kms'') = lower u tf @ sep # ''kms''"
    using assms(1) by (rule lower_with_indicator) simp
  have "sublist ''kms'' (lower u tf @ sep # ''kms'')"
    by (simp add: sublist_append sublist_Cons_right)
  moreover have "sublist ''public'' (lower u tf @ sep # ''kms'') = sublist ''public'' (lower u tf)"
       "sublist ''block_public'' (lower u tf @ sep # ''kms'') = sublist ''block_public'' (lower u tf)"
       "sublist ''tags'' (lower u tf @ sep # ''kms'') = sublist ''tags'' (lower u tf)"
       "sublist ''2xlarge'' (tf @ sep # ''kms'') = sublist ''2xlarge'' tf"
       "sublist ''4xlarge'' (tf @ sep # ''kms'') = sublist ''4xlarge'' tf"
    using assms(1) by (simp_all add: keyword_separated sublist_code)
  ultimately show ?thesis
    using assms(2)
    by (simp add: validate_policies_unfold violated_unfold low split: if_splits)
qed

text \<open>
  Claim C8.  Let an artifact fail the rule \<open>R\<close>, and append to it a passing indicator
  of \<open>R\<close>, as a word of its own: after a blank, a line feed or any other ASCII white
  space.  Then the violations are the former ones without \<open>R\<close>; no other rule
  changes, in any environment and whatever the lowering makes of text beyond ASCII.
\<close>

theorem indicator_removes_its_rule:
  assumes "ind \<in> set (passing_indicators R)"
    and "R \<in> set (violated u tf env)"
    and "ascii_space sep"
  shows "validate_policies u (tf @ sep # ind) env
       = filter (\<lambda>v. v_policy v \<noteq> R) (validate_policies u tf env)"
  using indicator_cases [OF assms(1)] assms(2,3)
  by (auto simp: separated_block_public separated_tags separated_encrypted separated_kms)

theorem indicator_removes_its_rule_witness:
  "''kms'' \<in> set (passing_indicators ''encryption_required'')
   \<and> violated caseless ''s3 logs'' ''staging'' = [''enforce_tagging'', ''encryption_required'']
   \<and> ascii_space CHR '' ''
   \<and> validate_policies caseless (''s3 logs'' @ CHR '' '' # ''kms'') ''staging''
       = filter (\<lambda>v. v_policy v \<noteq> ''encryption_required'')
           (validate_policies caseless ''s3 logs'' ''staging'')
   \<and> violated caseless ''s3 logs kms'' ''staging'' = [''enforce_tagging'']"
proof -
  have ind: "''kms'' \<in> set (passing_indicators ''encryption_required'')"
    by (simp add: passing_indicators_def)
  have low: "lower caseless ''s3 logs'' = ''s3 logs''"
    "lower caseless ''s3 logs kms'' = ''s3 logs kms''"
    by (simp_all add: lower_ascii is_ascii_def lower_char_def)
  have before: "violated caseless ''s3 logs'' ''staging'' = [''enforce_tagging'', ''encryption_required'']"
    by (simp add: violated_unfold low sublist_code)
  then have fails: "''encryption_required'' \<in> set (violated caseless ''s3 logs'' ''staging'')"
    by simp
  have after: "violated caseless ''s3 logs kms'' ''staging'' = [''enforce_tagging'']"
    by (simp add: violated_unfold low sublist_code)
  have sep: "ascii_space CHR '' ''"
    by (simp add: ascii_space_def)
  from indicator_removes_its_rule [OF ind fails sep] ind before after sep
  show ?thesis by simp
qed

text \<open>No appended text makes \<open>instance_size_limit\<close> pass: the rule has no passing
  indicator.\<close>

lemma size_limit_stays:
  assumes "''instance_size_limit'' \<in> set (violated u tf environment)"
  shows "''instance_size_limit'' \<in> set (violated u (tf @ appended) environment)"
  using assms by (auto simp: size_limit_violated_iff sublist_append)

section \<open>The incident handler\<close>

subsection \<open>Runs of the handler\<close>

lemma io_bind_run:
  assumes "io_bind m f = (tr, out)"
  shows "(\<exists>e. m = (tr, Inl e) \<and> out = Inl e)
       \<or> (\<exists>t1 x t2. m = (t1, Inr x) \<and> f x = (t2, out) \<and> tr = t1 @ t2)"
  using assms by (auto simp: io_bind_def split: prod.splits sum.splits)

lemma io_bind_pure [simp]:
  "io_bind ([], Inr x) f = f x"
  "io_bind ([], Inl e) f = ([], Inl e)"
  "io_bind (io_return x) f = f x"
  by (simp_all add: io_bind_def io_return_def split: prod.splits)

lemma remediate_run:
  assumes "remediate b ns unhealthy action = (tr, out)"
  shows "(\<forall>ev \<in> set tr. \<exists>pod. ev = DeletePod pod ns)
       \<and> (\<forall>ex. out = Inr ex \<longrightarrow>
            (\<forall>(a, res) \<in> set ex. a \<in> SAFE_ACTIONS \<and> action = JStr a
               \<and> (a = ''scale_up_deployment'' \<longrightarrow> res = skipped_message)
               \<and> (a = ''restart_pod'' \<longrightarrow> unhealthy \<noteq> []))
            \<and> (k8s_available b \<longrightarrow> length tr = length (filter (\<lambda>(a, res). a = ''restart_pod'') ex)))"
  using assms
  by (auto simp: remediate_def restart_pod_def SAFE_ACTIONS_def io_return_def io_bind_def
           split: if_splits prod.splits sum.splits option.splits)


lemma execute_actions_run:
  assumes "execute_actions b ns unhealthy actions = (tr, out)"
  shows "(\<forall>ev \<in> set tr. \<exists>pod. ev = DeletePod pod ns)
       \<and> (\<forall>ex. out = Inr ex \<longrightarrow>
            (\<forall>(a, res) \<in> set ex. a \<in> SAFE_ACTIONS \<and> JStr a \<in> set actions
               \<and> (a = ''scale_up_deployment'' \<longrightarrow> res = skipped_message)
               \<and> (a = ''restart_pod'' \<longrightarrow> unhealthy \<noteq> []))
            \<and> (k8s_available b \<longrightarrow> length tr = length (filter (\<lambda>(a, res). a = ''restart_pod'') ex)))"
  using assms
proof (induction actions arbitrary: tr out)
  case Nil
  then show ?case by (auto simp: io_return_def)
next
  case (Cons action actions)
  from Cons.prems have run:
    "io_bind (remediate b ns unhealthy action) (\<lambda>first.
       io_bind (execute_actions b ns unhealthy actions) (\<lambda>others. io_return (first @ others)))
     = (tr, out)"
    by simp
  from io_bind_run [OF run] show ?case
  proof (elim disjE exE conjE)
    fix e
    assume "remediate b ns unhealthy action = (tr, Inl e)" "out = Inl e"
    with remediate_run [of b ns unhealthy action tr "Inl e"] show ?thesis by simp
  next
    fix t1 first t2
    assume first: "remediate b ns unhealthy action = (t1, Inr first)"
      and rest: "io_bind (execute_actions b ns unhealthy actions) (\<lambda>others. io_return (first @ others))
                 = (t2, out)"
      and tr: "tr = t1 @ t2"
    note f = remediate_run [OF first]
    from io_bind_run [OF rest] show ?thesis
    proof (elim disjE exE conjE)
      fix e
      assume "execute_actions b ns unhealthy actions = (t2, Inl e)" "out = Inl e"
      with Cons.IH [of t2 "Inl e"] f tr show ?thesis by auto
    next
      fix t3 others t4
      assume others: "execute_actions b ns unhealthy actions = (t3, Inr others)"
        and fin: "io_return (first @ others) = (t4, out)" and t2: "t2 = t3 @ t4"
      from fin have t4: "t4 = []" and out: "out = Inr (first @ others)"
        by (simp_all add: io_return_def)
      note o = Cons.IH [OF others]
      show ?thesis
      proof (intro conjI allI impI)
        show "\<forall>ev \<in> set tr. \<exists>pod. ev = DeletePod pod ns"
          using f o tr t2 t4 by auto
      next
        fix ex assume "out = Inr ex"
        with out have ex: "ex = first @ others" by simp
        show "\<forall>(a, res) \<in> set ex. a \<in> SAFE_ACTIONS \<and> JStr a \<in> set (action # actions)
               \<and> (a = ''scale_up_deployment'' \<longrightarrow> res = skipped_message)
               \<and> (a = ''restart_pod'' \<longrightarrow> unhealthy \<noteq> [])"
          unfolding ex using f o by fastforce
      next
        fix ex assume "out = Inr ex" and "k8s_available b"
        with out f o tr t2 t4 show "length tr = length (filter (\<lambda>(a, res). a = ''restart_pod'') ex)"
          by simp
      qed
    qed
  qed
qed

lemma run_remediations_cases:
  assumes "run_remediations b severity ns unhealthy analysis = (tr, out)"
  shows "(tr = [] \<and> (\<forall>ex. out = Inr ex \<longrightarrow> ex = []))
       \<or> (severity = ''high'' \<and> (\<exists>acts. execute_actions b ns unhealthy acts = (tr, out)))"
proof (cases "severity = ''high''")
  case False
  then have "run_remediations b severity ns unhealthy analysis = ([], Inr [])"
    by (simp add: run_remediations_def io_return_def)
  with assms show ?thesis by auto
next
  case True
  show ?thesis
  proof (cases analysis)
    case (JObj kvs)
    show ?thesis
    proof (cases "dict_get kvs ''safe_actions''")
      case None
      with True JObj have "run_remediations b severity ns unhealthy analysis = ([], Inr [])"
        by (simp add: run_remediations_def io_return_def)
      with assms show ?thesis by auto
    next
      case (Some v)
      show ?thesis
      proof (cases "truthy v")
        case False
        with True JObj Some have "run_remediations b severity ns unhealthy analysis = ([], Inr [])"
          by (simp add: run_remediations_def io_return_def)
        with assms show ?thesis by auto
      next
        case truthy: True
        show ?thesis
        proof (cases "py_iter v")
          case (Inl e)
          with True JObj Some truthy
          have "run_remediations b severity ns unhealthy analysis = ([], Inl e)"
            by (simp add: run_remediations_def)
          with assms show ?thesis by auto
        next
          case (Inr acts)
          with True JObj Some truthy
          have "run_remediations b severity ns unhealthy analysis
                = execute_actions b ns unhealthy acts"
            by (simp add: run_remediations_def)
          with assms True show ?thesis by auto
        qed
      qed
    qed
  next
    case JNull
    with True have "run_remediations b severity ns unhealthy analysis = ([], Inl AttributeError)"
      by (simp add: run_remediations_def io_raise_def)
    with assms show ?thesis by auto
  next
    case (JBool x)
    with True have "run_remediations b severity ns unhealthy analysis = ([], Inl AttributeError)"
      by (simp add: run_remediations_def io_raise_def)
    with assms show ?thesis by auto
  next
    case (JNum x)
    with True have "run_remediations b severity ns unhealthy analysis = ([], Inl AttributeError)"
      by (simp add: run_remediations_def io_raise_def)
    with assms show ?thesis by auto
  next
    case (JStr x)
    with True have "run_remediations b severity ns unhealthy analysis = ([], Inl AttributeError)"
      by (simp add: run_remediations_def io_raise_def)
    with assms show ?thesis by auto
  next
    case (JList x)
    with True have "run_remediations b severity ns unhealthy analysis = ([], Inl AttributeError)"
      by (simp add: run_remediations_def io_raise_def)
    with assms show ?thesis by auto
  qed
qed


lemma run_remediations_run:
  assumes "run_remediations b severity ns unhealthy analysis = (tr, out)"
  shows "(\<forall>ev \<in> set tr. severity = ''high'' \<and> (\<exists>pod. ev = DeletePod pod ns))
       \<and> (\<forall>ex. out = Inr ex \<longrightarrow>
            (\<forall>(a, res) \<in> set ex. spec_may_auto_execute a severity
               \<and> (a = ''scale_up_deployment'' \<longrightarrow> res = skipped_message)
               \<and> (a = ''restart_pod'' \<longrightarrow> unhealthy \<noteq> []))
            \<and> (k8s_available b \<longrightarrow> length tr = length (filter (\<lambda>(a, res). a = ''restart_pod'') ex)))"
proof -
  from run_remediations_cases [OF assms] show ?thesis
  proof (elim disjE conjE exE)
    assume tr: "tr = []" and none: "\<forall>ex. out = Inr ex \<longrightarrow> ex = []"
    show ?thesis
    proof (intro conjI allI impI)
      show "\<forall>ev \<in> set tr. severity = ''high'' \<and> (\<exists>pod. ev = DeletePod pod ns)"
        by (simp add: tr)
    next
      fix ex assume "out = Inr ex"
      with none have "ex = []" by simp
      then show "\<forall>(a, res) \<in> set ex. spec_may_auto_execute a severity
               \<and> (a = ''scale_up_deployment'' \<longrightarrow> res = skipped_message)
               \<and> (a = ''restart_pod'' \<longrightarrow> unhealthy \<noteq> [])"
        by simp
    next
      fix ex assume "out = Inr ex"
      with none have "ex = []" by simp
      with tr show "length tr = length (filter (\<lambda>(a, res). a = ''restart_pod'') ex)"
        by simp
    qed
  next
    fix acts
    assume high: "severity = ''high''" and "execute_actions b ns unhealthy acts = (tr, out)"
    note run = execute_actions_run [OF this(2)]
    have events: "\<forall>ev \<in> set tr. severity = ''high'' \<and> (\<exists>pod. ev = DeletePod pod ns)"
      using run [THEN conjunct1] high by simp
    have entries: "(\<forall>(a, res) \<in> set ex. spec_may_auto_execute a severity
               \<and> (a = ''scale_up_deployment'' \<longrightarrow> res = skipped_message)
               \<and> (a = ''restart_pod'' \<longrightarrow> unhealthy \<noteq> []))
            \<and> (k8s_available b \<longrightarrow> length tr = length (filter (\<lambda>(a, res). a = ''restart_pod'') ex))"
      if "out = Inr ex" for ex
    proof -
      note ex = run [THEN conjunct2, rule_format, OF that]
      have elem: "spec_may_auto_execute a severity
               \<and> (a = ''scale_up_deployment'' \<longrightarrow> res = skipped_message)
               \<and> (a = ''restart_pod'' \<longrightarrow> unhealthy \<noteq> [])"
        if "(a, res) \<in> set ex" for a res
      proof -
        from ex [THEN conjunct1, rule_format, OF that]
        have "a \<in> SAFE_ACTIONS" "a = ''scale_up_deployment'' \<longrightarrow> res = skipped_message"
          "a = ''restart_pod'' \<longrightarrow> unhealthy \<noteq> []"
          by simp_all
        with high show ?thesis by (simp add: spec_may_auto_execute_def)
      qed
      have "\<forall>(a, res) \<in> set ex. spec_may_auto_execute a severity
               \<and> (a = ''scale_up_deployment'' \<longrightarrow> res = skipped_message)
               \<and> (a = ''restart_pod'' \<longrightarrow> unhealthy \<noteq> [])"
      proof (intro ballI)
        fix x assume "x \<in> set ex"
        then have "(fst x, snd x) \<in> set ex" by simp
        from elem [OF this]
        show "case x of (a, res) \<Rightarrow> spec_may_auto_execute a severity
               \<and> (a = ''scale_up_deployment'' \<longrightarrow> res = skipped_message)
               \<and> (a = ''restart_pod'' \<longrightarrow> unhealthy \<noteq> [])"
          by (simp add: split_beta)
      qed
      with ex [THEN conjunct2] show ?thesis by (intro conjI)
    qed
    show ?thesis
    proof (intro conjI allI impI)
      show "\<forall>ev \<in> set tr. severity = ''high'' \<and> (\<exists>pod. ev = DeletePod pod ns)"
        by (rule events)
    next
      fix ex assume "out = Inr ex"
      from entries [OF this, THEN conjunct1]
      show "\<forall>(a, res) \<in> set ex. spec_may_auto_execute a severity
               \<and> (a = ''scale_up_deployment'' \<longrightarrow> res = skipped_message)
               \<and> (a = ''restart_pod'' \<longrightarrow> unhealthy \<noteq> [])" .
    next
      fix ex assume "out = Inr ex" and "k8s_available b"
      with entries [OF this(1), THEN conjunct2]
      show "length tr = length (filter (\<lambda>(a, res). a = ''restart_pod'') ex)" by simp
    qed
  qed
qed

lemma run_remediations_not_high:
  "severity \<noteq> ''high'' \<Longrightarrow> run_remediations b severity ns unhealthy analysis = ([], Inr [])"
  by (simp add: run_remediations_def io_return_def)


lemma get_pod_status_run:
  assumes "get_pod_status b ns = (tr, out)"
  shows "(\<forall>ev \<in> set tr. ev = ListPods ns)
       \<and> (\<not> k8s_available b \<longrightarrow> tr = [] \<and> out = Inr [PodError ''K8s not available''])"
  using assms by (auto simp: get_pod_status_def io_return_def split: if_splits)

lemma get_pod_logs_run:
  assumes "get_pod_logs b pod ns = (tr, out)"
  shows "\<forall>ev \<in> set tr. ev = ReadLog pod ns"
  using assms by (auto simp: get_pod_logs_def io_return_def split: if_splits)

lemma collect_logs_run:
  assumes "collect_logs b ns pods acc = (tr, out)"
  shows "\<forall>ev \<in> set tr. \<exists>pod. ev = ReadLog pod ns"
  using assms
proof (induction pods arbitrary: acc tr out)
  case Nil
  then show ?case by (auto simp: io_return_def)
next
  case (Cons pod pods)
  show ?case
  proof (cases "entry_name pod")
    case (Inl e)
    with Cons.prems show ?thesis by auto
  next
    case (Inr name)
    with Cons.prems have run:
      "io_bind (get_pod_logs b name ns) (\<lambda>logs. collect_logs b ns pods (AList.update name logs acc))
       = (tr, out)"
      by simp
    from io_bind_run [OF run] show ?thesis
    proof (elim disjE exE conjE)
      fix e assume "get_pod_logs b name ns = (tr, Inl e)"
      from get_pod_logs_run [OF this] show ?thesis by auto
    next
      fix t1 logs t2
      assume "get_pod_logs b name ns = (t1, Inr logs)"
        and "collect_logs b ns pods (AList.update name logs acc) = (t2, out)" and "tr = t1 @ t2"
      with get_pod_logs_run [of b name ns t1 "Inr logs"]
        Cons.IH [of "AList.update name logs acc" t2 out]
      show ?thesis by auto
    qed
  qed
qed

lemma analyze_unavailable:
  assumes "\<not> k8s_available b"
  shows "analyze b engine description severity ns = ([], Inl (KeyError ''name''))"
  using assms by (simp add: analyze_def get_pod_status_def)

lemma filter_none: "\<forall>ev \<in> set tr. \<not> P ev \<Longrightarrow> filter P tr = []"
  by (simp add: filter_empty_conv)

text \<open>The shape of every run of \<open>analyze\<close>: reads and one call of the engine at most,
  then the remediation step.\<close>

lemma analyze_run:
  assumes "analyze b engine description severity ns = (tr, out)"
  shows "(\<exists>reads acts unhealthy analysis outcome.
            tr = reads @ acts
          \<and> filter is_mutation reads = []
          \<and> length (filter is_engine_call reads) \<le> 1
          \<and> run_remediations b severity ns unhealthy analysis = (acts, outcome)
          \<and> (\<forall>r. out = Inr r \<longrightarrow> outcome = Inr (auto_executed r))
          \<and> (\<forall>r. out = Inr r \<longrightarrow> analysis_of r = analysis \<and> unhealthy_pods r = length unhealthy))
       \<or> (filter is_mutation tr = [] \<and> length (filter is_engine_call tr) \<le> 1 \<and> (\<exists>e. out = Inl e))"
proof -
  from io_bind_run [OF assms [unfolded analyze_def]] show ?thesis
  proof (elim disjE exE conjE)
    fix e assume "get_pod_status b ns = (tr, Inl e)" and out: "out = Inl e"
    from get_pod_status_run [OF this(1)]
    have "\<forall>ev \<in> set tr. \<not> is_mutation ev" "\<forall>ev \<in> set tr. \<not> is_engine_call ev" by auto
    then have "filter is_mutation tr = []" "filter is_engine_call tr = []"
      by (simp_all add: filter_none)
    with out show ?thesis by simp
  next
    fix t1 pod_status t2
    assume status: "get_pod_status b ns = (t1, Inr pod_status)" and tr: "tr = t1 @ t2"
      and rest: "(let unhealthy = filter is_unhealthy pod_status
          in io_bind (collect_logs b ns (take 3 unhealthy) []) (\<lambda>pod_logs.
             io_bind ([EngineCall Incident],
                      engine description severity pod_status unhealthy pod_logs) (\<lambda>analysis.
             io_bind (run_remediations b severity ns unhealthy analysis) (\<lambda>executed.
             io_return
               \<lparr>analysis_of = analysis,
                total_pods = length pod_status,
                unhealthy_pods = length unhealthy,
                auto_executed = executed\<rparr>)))) = (t2, out)"
    define unhealthy where "unhealthy = filter is_unhealthy pod_status"
    from get_pod_status_run [OF status]
    have "\<forall>ev \<in> set t1. \<not> is_mutation ev" "\<forall>ev \<in> set t1. \<not> is_engine_call ev" by auto
    then have t1: "filter is_mutation t1 = []" "filter is_engine_call t1 = []"
      by (simp_all add: filter_none)
    from rest have rest': "io_bind (collect_logs b ns (take 3 unhealthy) []) (\<lambda>pod_logs.
             io_bind ([EngineCall Incident],
                      engine description severity pod_status unhealthy pod_logs) (\<lambda>analysis.
             io_bind (run_remediations b severity ns unhealthy analysis) (\<lambda>executed.
             io_return
               \<lparr>analysis_of = analysis,
                total_pods = length pod_status,
                unhealthy_pods = length unhealthy,
                auto_executed = executed\<rparr>))) = (t2, out)"
      by (simp add: unhealthy_def Let_def)
    from io_bind_run [OF rest'] show ?thesis
    proof (elim disjE exE conjE)
      fix e assume "collect_logs b ns (take 3 unhealthy) [] = (t2, Inl e)" and out: "out = Inl e"
      from collect_logs_run [OF this(1)]
      have "\<forall>ev \<in> set t2. \<not> is_mutation ev" "\<forall>ev \<in> set t2. \<not> is_engine_call ev" by auto
      then have "filter is_mutation t2 = []" "filter is_engine_call t2 = []"
        by (simp_all add: filter_none)
      with t1 tr out show ?thesis by simp
    next
      fix t3 pod_logs t4
      assume logs: "collect_logs b ns (take 3 unhealthy) [] = (t3, Inr pod_logs)"
        and t2: "t2 = t3 @ t4"
        and rest2: "io_bind ([EngineCall Incident],
                      engine description severity pod_status unhealthy pod_logs) (\<lambda>analysis.
             io_bind (run_remediations b severity ns unhealthy analysis) (\<lambda>executed.
             io_return
               \<lparr>analysis_of = analysis,
                total_pods = length pod_status,
                unhealthy_pods = length unhealthy,
                auto_executed = executed\<rparr>)) = (t4, out)"
      from collect_logs_run [OF logs]
      have "\<forall>ev \<in> set t3. \<not> is_mutation ev" "\<forall>ev \<in> set t3. \<not> is_engine_call ev" by auto
      then have t3: "filter is_mutation t3 = []" "filter is_engine_call t3 = []"
        by (simp_all add: filter_none)
      from io_bind_run [OF rest2] show ?thesis
      proof (elim disjE exE conjE)
        fix e assume "([EngineCall Incident],
              engine description severity pod_status unhealthy pod_logs) = (t4, Inl e)"
          and out: "out = Inl e"
        then have "t4 = [EngineCall Incident]" by simp
        with t1 t3 tr t2 out show ?thesis by simp
      next
        fix t5 analysis t6
        assume "([EngineCall Incident],
              engine description severity pod_status unhealthy pod_logs) = (t5, Inr analysis)"
          and t4: "t4 = t5 @ t6"
          and rest3: "io_bind (run_remediations b severity ns unhealthy analysis) (\<lambda>executed.
             io_return
               \<lparr>analysis_of = analysis,
                total_pods = length pod_status,
                unhealthy_pods = length unhealthy,
                auto_executed = executed\<rparr>) = (t6, out)"
        then have t5: "t5 = [EngineCall Incident]" by simp
        have reads: "filter is_mutation (t1 @ t3 @ t5) = []"
          "length (filter is_engine_call (t1 @ t3 @ t5)) \<le> 1"
          using t1 t3 t5 by simp_all
        from io_bind_run [OF rest3] obtain outcome where
          acts: "run_remediations b severity ns unhealthy analysis = (t6, outcome)"
          and res: "\<forall>r. out = Inr r \<longrightarrow> outcome = Inr (auto_executed r)"
          and fields: "\<forall>r. out = Inr r \<longrightarrow> analysis_of r = analysis \<and> unhealthy_pods r = length unhealthy"
          by (auto simp: io_return_def)
        have "tr = (t1 @ t3 @ t5) @ t6" using tr t2 t4 by simp
        with reads acts res fields show ?thesis by blast
      qed
    qed
  qed
qed


subsection \<open>What a successful run records\<close>

lemma action_ids_Cons:
  "action_ids (a # rest) = action_ids [a] @ action_ids rest"
  by (cases a) simp_all

lemma action_ids_member:
  "JStr a \<in> set acts \<longleftrightarrow> a \<in> set (action_ids acts)"
  by (induction acts rule: action_ids.induct) auto

lemma remediate_entries:
  assumes "remediate b ns unhealthy action = (tr, Inr ex)"
  shows "map fst ex
       = filter (\<lambda>a. a \<in> SAFE_ACTIONS \<and> (a = ''restart_pod'' \<longrightarrow> unhealthy \<noteq> []))
           (action_ids [action])"
proof (cases "action = JStr ''restart_pod''")
  case True
  show ?thesis
  proof (cases "unhealthy = []")
    case True
    with \<open>action = JStr ''restart_pod''\<close> assms show ?thesis
      by (auto simp: remediate_def io_return_def)
  next
    case False
    with True assms have "\<exists>res. ex = [(''restart_pod'', res)]"
      by (auto simp: remediate_def io_bind_def io_return_def split: prod.splits sum.splits)
    with True False show ?thesis by (auto simp: SAFE_ACTIONS_def)
  qed
next
  case False
  show ?thesis
  proof (cases "action = JStr ''scale_up_deployment''")
    case True
    with assms show ?thesis by (auto simp: remediate_def io_return_def SAFE_ACTIONS_def)
  next
    case other: False
    with False assms have "ex = []" by (auto simp: remediate_def io_return_def)
    with False other show ?thesis by (cases action) (simp_all add: SAFE_ACTIONS_def)
  qed
qed

lemma execute_actions_entries:
  assumes "execute_actions b ns unhealthy actions = (tr, Inr ex)"
  shows "map fst ex
       = filter (\<lambda>a. a \<in> SAFE_ACTIONS \<and> (a = ''restart_pod'' \<longrightarrow> unhealthy \<noteq> []))
           (action_ids actions)"
  using assms
proof (induction actions arbitrary: tr ex)
  case Nil
  then show ?case by (simp add: io_return_def)
next
  case (Cons action actions)
  from Cons.prems have run:
    "io_bind (remediate b ns unhealthy action) (\<lambda>first.
       io_bind (execute_actions b ns unhealthy actions) (\<lambda>others. io_return (first @ others)))
     = (tr, Inr ex)"
    by simp
  from io_bind_run [OF run] obtain t1 first t2 where
    first: "remediate b ns unhealthy action = (t1, Inr first)"
    and rest: "io_bind (execute_actions b ns unhealthy actions) (\<lambda>others. io_return (first @ others))
               = (t2, Inr ex)"
    by auto
  from io_bind_run [OF rest] obtain t3 others where
    others: "execute_actions b ns unhealthy actions = (t3, Inr others)"
    and ex: "ex = first @ others"
    by (auto simp: io_return_def)
  from remediate_entries [OF first] Cons.IH [OF others] ex
  show ?case by (subst action_ids_Cons) simp
qed

text \<open>Under severity \<open>high\<close> a remediation step that ends without an exception is the
  loop over the proposed actions.\<close>

lemma run_remediations_high:
  assumes "run_remediations b ''high'' ns unhealthy analysis = (tr, Inr ex)"
  shows "execute_actions b ns unhealthy (proposed_actions analysis) = (tr, Inr ex)"
proof (cases analysis)
  case (JObj kvs)
  show ?thesis
  proof (cases "dict_get kvs ''safe_actions''")
    case None
    with JObj assms show ?thesis
      by (simp add: run_remediations_def proposed_actions_def)
  next
    case (Some v)
    show ?thesis
    proof (cases "truthy v")
      case False
      with JObj Some assms show ?thesis
        by (simp add: run_remediations_def proposed_actions_def)
    next
      case True
      with JObj Some assms show ?thesis
        by (cases "py_iter v") (simp_all add: run_remediations_def proposed_actions_def)
    qed
  qed
qed (use assms in \<open>simp_all add: run_remediations_def io_raise_def\<close>)

subsection \<open>Runs that complete\<close>

text \<open>On a cluster that is available, lists its pods and deletes on request, and with
  an engine whose reply is a dict with a list of actions, the handler returns a result.\<close>

lemma get_pod_logs_completes:
  assumes "k8s_available b"
    and "\<forall>pod e. read_namespaced_pod_log b pod ns 50 = Inl e \<longrightarrow> (\<exists>reason. e = ApiException reason)"
  shows "\<exists>logs. get_pod_logs b pod ns = ([ReadLog pod ns], Inr logs)"
proof (cases "read_namespaced_pod_log b pod ns 50")
  case (Inl e)
  with assms(2) obtain reason where "e = ApiException reason" by blast
  with Inl assms(1) show ?thesis by (simp add: get_pod_logs_def)
next
  case (Inr logs)
  with assms(1) show ?thesis by (simp add: get_pod_logs_def)
qed

lemma collect_logs_completes:
  assumes "k8s_available b"
    and "\<forall>pod e. read_namespaced_pod_log b pod ns 50 = Inl e \<longrightarrow> (\<exists>reason. e = ApiException reason)"
    and "\<forall>p \<in> set pods. \<exists>name. entry_name p = Inr name"
  shows "\<exists>tr logs. collect_logs b ns pods acc = (tr, Inr logs)"
  using assms(3)
proof (induction pods arbitrary: acc)
  case Nil
  show ?case by (simp add: io_return_def)
next
  case (Cons p pods)
  from Cons.prems obtain name where name: "entry_name p = Inr name" by auto
  from get_pod_logs_completes [OF assms(1,2)] obtain logs where
    logs: "get_pod_logs b name ns = ([ReadLog name ns], Inr logs)"
    by blast
  from Cons.IH [of "AList.update name logs acc"] Cons.prems obtain tr out where
    "collect_logs b ns pods (AList.update name logs acc) = (tr, Inr out)"
    by auto
  with name logs show ?case by (simp add: io_bind_def)
qed

lemma remediate_completes:
  assumes "k8s_available b" and "\<forall>pod. delete_namespaced_pod b pod ns = None"
    and "\<forall>p \<in> set unhealthy. \<exists>name. entry_name p = Inr name"
  shows "\<exists>tr ex. remediate b ns unhealthy action = (tr, Inr ex)"
proof (cases "action = JStr ''restart_pod'' \<and> unhealthy \<noteq> []")
  case True
  with assms(3) obtain name where "entry_name (hd unhealthy) = Inr name"
    by (cases unhealthy) auto
  with True assms(1,2) show ?thesis
    by (simp add: remediate_def restart_pod_def io_bind_def io_return_def)
next
  case False
  then show ?thesis by (auto simp: remediate_def io_return_def)
qed

lemma execute_actions_completes:
  assumes "k8s_available b" and "\<forall>pod. delete_namespaced_pod b pod ns = None"
    and "\<forall>p \<in> set unhealthy. \<exists>name. entry_name p = Inr name"
  shows "\<exists>tr ex. execute_actions b ns unhealthy actions = (tr, Inr ex)"
proof (induction actions)
  case Nil
  show ?case by (simp add: io_return_def)
next
  case (Cons action actions)
  from remediate_completes [OF assms] obtain t1 first where
    "remediate b ns unhealthy action = (t1, Inr first)"
    by blast
  moreover from Cons.IH obtain t2 others where
    "execute_actions b ns unhealthy actions = (t2, Inr others)"
    by blast
  ultimately show ?case by (simp add: io_bind_def io_return_def)
qed

lemma run_remediations_completes:
  assumes "k8s_available b" and "\<forall>pod. delete_namespaced_pod b pod ns = None"
    and "\<forall>p \<in> set unhealthy. \<exists>name. entry_name p = Inr name"
    and "dict_get kvs ''safe_actions'' = Some (JList actions)"
  shows "\<exists>tr ex. run_remediations b severity ns unhealthy (JObj kvs) = (tr, Inr ex)"
proof (cases "severity = ''high'' \<and> actions \<noteq> []")
  case True
  with assms(4) execute_actions_completes [OF assms(1-3), of actions] show ?thesis
    by (simp add: run_remediations_def)
next
  case False
  with assms(4) show ?thesis
    by (auto simp: run_remediations_def io_return_def)
qed

lemma summaries_have_names:
  "\<forall>p \<in> set (filter is_unhealthy (map pod_summary items)). \<exists>name. entry_name p = Inr name"
  by (auto simp: pod_summary_def Let_def)

lemma analyze_completes:
  assumes "k8s_available b" and "list_namespaced_pod b ns = Inr items"
    and "\<forall>pod e. read_namespaced_pod_log b pod ns 50 = Inl e \<longrightarrow> (\<exists>reason. e = ApiException reason)"
    and "\<forall>pod. delete_namespaced_pod b pod ns = None"
    and "\<forall>pod_status unhealthy pod_logs. \<exists>kvs actions.
           engine description severity pod_status unhealthy pod_logs = Inr (JObj kvs)
           \<and> dict_get kvs ''safe_actions'' = Some (JList actions)"
  shows "\<exists>tr r. analyze b engine description severity ns = (tr, Inr r)"
proof -
  let ?status = "map pod_summary items"
  let ?unhealthy = "filter is_unhealthy ?status"
  have status: "get_pod_status b ns = ([ListPods ns], Inr ?status)"
    using assms(1,2) by (simp add: get_pod_status_def)
  have named: "\<forall>p \<in> set ?unhealthy. \<exists>name. entry_name p = Inr name"
    by (rule summaries_have_names)
  then have "\<forall>p \<in> set (take 3 ?unhealthy). \<exists>name. entry_name p = Inr name"
    by (meson in_set_takeD)
  from collect_logs_completes [OF assms(1,3) this, of "[]"] obtain t1 pod_logs where
    logs: "collect_logs b ns (take 3 ?unhealthy) [] = (t1, Inr pod_logs)"
    by blast
  from assms(5) obtain kvs actions where
    reply: "engine description severity ?status ?unhealthy pod_logs = Inr (JObj kvs)"
    and actions: "dict_get kvs ''safe_actions'' = Some (JList actions)"
    by blast
  from run_remediations_completes [OF assms(1,4) named actions, of severity] obtain t2 ex where
    "run_remediations b severity ns ?unhealthy (JObj kvs) = (t2, Inr ex)"
    by blast
  with status logs reply show ?thesis
    by (simp add: analyze_def Let_def io_bind_def io_return_def)
qed

lemma mutations_of_deletes:
  assumes "\<forall>ev \<in> set tr. \<exists>pod. ev = DeletePod pod ns"
  shows "filter is_mutation tr = tr"
  using assms by (induction tr) auto

text \<open>
  Claim C1, amended.  In every run of the incident handler, whatever the engine proposes:
  a write on the cluster happens only under severity \<open>high\<close> and is the deletion of a
  pod in the namespace of the request; under any other severity there is no write and
  the list of executed actions is empty.  In a result, every entry of that list names
  an action that the gate of the specification approves; when there is an unhealthy
  pod, the entries are exactly the proposed identifiers that the gate approves, in
  the order proposed; and whether or not there is one, this holds of the identifiers
  other than \<open>restart_pod\<close>.  Of the approved actions \<open>restart_pod\<close> is executed, the
  deletions being as many as its entries, so that under severity \<open>high\<close> with an
  unhealthy pod a proposed \<open>restart_pod\<close> does delete a pod; \<open>scale_up_deployment\<close> is
  not executed, its entry says that it was skipped.  And there is a result whenever
  the cluster is available, lists its pods and carries out every deletion, reading
  the logs fails by an API exception at most, and the engine replies with a dict that
  holds a list of actions.
\<close>

theorem auto_execution_gate:
  assumes "analyze b engine description severity ns = (tr, out)"
  shows "(\<forall>ev \<in> set tr. is_mutation ev \<longrightarrow> severity = ''high'' \<and> (\<exists>pod. ev = DeletePod pod ns))
       \<and> (severity \<noteq> ''high'' \<longrightarrow> filter is_mutation tr = [])
       \<and> (\<forall>r. out = Inr r \<longrightarrow>
            (severity \<noteq> ''high'' \<longrightarrow> auto_executed r = [])
          \<and> (\<forall>(a, res) \<in> set (auto_executed r).
                spec_may_auto_execute a severity
                \<and> (a = ''scale_up_deployment'' \<longrightarrow> res = skipped_message))
          \<and> length (filter is_mutation tr)
              = length (filter (\<lambda>(a, res). a = ''restart_pod'') (auto_executed r))
          \<and> (0 < unhealthy_pods r \<longrightarrow>
                map fst (auto_executed r)
                = filter (\<lambda>a. spec_may_auto_execute a severity)
                    (action_ids (proposed_actions (analysis_of r))))
          \<and> filter (\<lambda>a. a \<noteq> ''restart_pod'') (map fst (auto_executed r))
              = filter (\<lambda>a. spec_may_auto_execute a severity \<and> a \<noteq> ''restart_pod'')
                  (action_ids (proposed_actions (analysis_of r)))
          \<and> (severity = ''high'' \<and> 0 < unhealthy_pods r
                \<and> JStr ''restart_pod'' \<in> set (proposed_actions (analysis_of r)) \<longrightarrow>
                (\<exists>pod. DeletePod pod ns \<in> set tr)
                \<and> (\<exists>res. (''restart_pod'', res) \<in> set (auto_executed r))))
       \<and> (k8s_available b \<and> (\<exists>items. list_namespaced_pod b ns = Inr items)
            \<and> (\<forall>pod e. read_namespaced_pod_log b pod ns 50 = Inl e \<longrightarrow>
                   (\<exists>reason. e = ApiException reason))
            \<and> (\<forall>pod. delete_namespaced_pod b pod ns = None)
            \<and> (\<forall>pod_status unhealthy pod_logs. \<exists>kvs actions.
                   engine description severity pod_status unhealthy pod_logs = Inr (JObj kvs)
                   \<and> dict_get kvs ''safe_actions'' = Some (JList actions)) \<longrightarrow>
            (\<exists>r. out = Inr r))"
    (is "?writes \<and> ?quiet \<and> ?results \<and> ?completes")
proof -
  have completes: "\<exists>r. out = Inr r"
    if "k8s_available b \<and> (\<exists>items. list_namespaced_pod b ns = Inr items)
            \<and> (\<forall>pod e. read_namespaced_pod_log b pod ns 50 = Inl e \<longrightarrow>
                   (\<exists>reason. e = ApiException reason))
            \<and> (\<forall>pod. delete_namespaced_pod b pod ns = None)
            \<and> (\<forall>pod_status unhealthy pod_logs. \<exists>kvs actions.
                   engine description severity pod_status unhealthy pod_logs = Inr (JObj kvs)
                   \<and> dict_get kvs ''safe_actions'' = Some (JList actions))"
  proof -
    from that obtain items where "k8s_available b" "list_namespaced_pod b ns = Inr items"
      "\<forall>pod e. read_namespaced_pod_log b pod ns 50 = Inl e \<longrightarrow> (\<exists>reason. e = ApiException reason)"
      "\<forall>pod. delete_namespaced_pod b pod ns = None"
      "\<forall>pod_status unhealthy pod_logs. \<exists>kvs actions.
           engine description severity pod_status unhealthy pod_logs = Inr (JObj kvs)
           \<and> dict_get kvs ''safe_actions'' = Some (JList actions)"
      by blast
    from analyze_completes [of b ns items engine description severity, OF this] assms
    show ?thesis by auto
  qed
  then have live: ?completes by (rule impI)
  have available: "k8s_available b" if "out = Inr r" for r
  proof (rule ccontr)
    assume "\<not> k8s_available b"
    from analyze_unavailable [OF this, of engine description severity ns] assms that
    show False by simp
  qed
  from analyze_run [OF assms] have safety: "?writes \<and> ?quiet \<and> ?results"
  proof (elim disjE exE conjE)
    fix e assume quiet: "filter is_mutation tr = []" and out: "out = Inl e"
    from quiet have "\<forall>ev \<in> set tr. \<not> is_mutation ev" by (simp add: filter_empty_conv)
    with quiet out show ?thesis by simp
  next
    fix reads acts unhealthy analysis outcome
    assume tr: "tr = reads @ acts" and reads: "filter is_mutation reads = []"
      and run: "run_remediations b severity ns unhealthy analysis = (acts, outcome)"
      and res: "\<forall>r. out = Inr r \<longrightarrow> outcome = Inr (auto_executed r)"
      and fields: "\<forall>r. out = Inr r \<longrightarrow> analysis_of r = analysis \<and> unhealthy_pods r = length unhealthy"
    note rem = run_remediations_run [OF run]
    from rem [THEN conjunct1]
    have acts: "\<forall>ev \<in> set acts. severity = ''high'' \<and> (\<exists>pod. ev = DeletePod pod ns)" .
    then have deletes: "\<forall>ev \<in> set acts. \<exists>pod. ev = DeletePod pod ns" by blast
    from reads have silent: "\<forall>ev \<in> set reads. \<not> is_mutation ev" by (simp add: filter_empty_conv)
    have muts: "filter is_mutation tr = acts"
      using tr reads mutations_of_deletes [OF deletes] by simp
    have low: "acts = [] \<and> outcome = Inr []" if "severity \<noteq> ''high''"
      using run run_remediations_not_high [OF that, of b ns unhealthy analysis] by simp
    have count: "length (filter is_mutation tr)
              = length (filter (\<lambda>(a, res). a = ''restart_pod'') (auto_executed r))"
      if out: "out = Inr r" for r
    proof -
      from out res have outcome: "outcome = Inr (auto_executed r)" by simp
      from rem [THEN conjunct2, rule_format, OF outcome, THEN conjunct2] available [OF out]
      have "length acts = length (filter (\<lambda>(a, res). a = ''restart_pod'') (auto_executed r))"
        by simp
      with muts show ?thesis by simp
    qed
    have recorded: "map fst (auto_executed r)
          = filter (\<lambda>a. spec_may_auto_execute a severity \<and> (a = ''restart_pod'' \<longrightarrow> 0 < unhealthy_pods r))
              (action_ids (proposed_actions (analysis_of r)))"
      if out: "out = Inr r" for r
    proof (cases "severity = ''high''")
      case True
      from out res fields have outcome: "outcome = Inr (auto_executed r)"
        and analysis: "analysis_of r = analysis" and pods: "unhealthy_pods r = length unhealthy"
        by simp_all
      from run True outcome
      have "run_remediations b ''high'' ns unhealthy analysis = (acts, Inr (auto_executed r))"
        by simp
      from execute_actions_entries [OF run_remediations_high [OF this]] True analysis pods
      show ?thesis by (simp add: spec_may_auto_execute_def)
    next
      case False
      with low out res have "auto_executed r = []" by simp
      with False show ?thesis by (simp add: spec_may_auto_execute_def)
    qed
    show ?thesis
    proof (intro conjI allI impI)
      show "\<forall>ev \<in> set tr. is_mutation ev \<longrightarrow> severity = ''high'' \<and> (\<exists>pod. ev = DeletePod pod ns)"
        unfolding tr using silent acts by auto
    next
      assume "severity \<noteq> ''high''"
      with low muts show "filter is_mutation tr = []" by simp
    next
      fix r assume "out = Inr r" "severity \<noteq> ''high''"
      with low res show "auto_executed r = []" by simp
    next
      fix r assume out: "out = Inr r"
      with res have outcome: "outcome = Inr (auto_executed r)" by simp
      from rem [THEN conjunct2, rule_format, OF outcome, THEN conjunct1]
      have entries: "\<forall>(a, res) \<in> set (auto_executed r). spec_may_auto_execute a severity
               \<and> (a = ''scale_up_deployment'' \<longrightarrow> res = skipped_message)
               \<and> (a = ''restart_pod'' \<longrightarrow> unhealthy \<noteq> [])" .
      show "\<forall>(a, res) \<in> set (auto_executed r).
                spec_may_auto_execute a severity
                \<and> (a = ''scale_up_deployment'' \<longrightarrow> res = skipped_message)"
      proof (intro ballI)
        fix x assume "x \<in> set (auto_executed r)"
        with entries show "case x of (a, res) \<Rightarrow> spec_may_auto_execute a severity
                \<and> (a = ''scale_up_deployment'' \<longrightarrow> res = skipped_message)"
          by (cases x) blast
      qed
    next
      fix r assume "out = Inr r"
      then show "length (filter is_mutation tr)
              = length (filter (\<lambda>(a, res). a = ''restart_pod'') (auto_executed r))"
        by (rule count)
    next
      fix r assume "out = Inr r" and "0 < unhealthy_pods r"
      with recorded [of r]
      show "map fst (auto_executed r)
                = filter (\<lambda>a. spec_may_auto_execute a severity)
                    (action_ids (proposed_actions (analysis_of r)))"
        by simp
    next
      fix r assume "out = Inr r"
      from recorded [OF this]
      have "filter (\<lambda>a. a \<noteq> ''restart_pod'') (map fst (auto_executed r))
          = filter (\<lambda>a. a \<noteq> ''restart_pod'')
              (filter (\<lambda>a. spec_may_auto_execute a severity
                            \<and> (a = ''restart_pod'' \<longrightarrow> 0 < unhealthy_pods r))
                 (action_ids (proposed_actions (analysis_of r))))"
        by simp
      also have "\<dots> = filter (\<lambda>a. spec_may_auto_execute a severity \<and> a \<noteq> ''restart_pod'')
                  (action_ids (proposed_actions (analysis_of r)))"
        unfolding filter_filter by (rule filter_cong) auto
      finally show "filter (\<lambda>a. a \<noteq> ''restart_pod'') (map fst (auto_executed r))
              = filter (\<lambda>a. spec_may_auto_execute a severity \<and> a \<noteq> ''restart_pod'')
                  (action_ids (proposed_actions (analysis_of r)))" .
    next
      fix r
      assume hyp: "severity = ''high'' \<and> 0 < unhealthy_pods r
                \<and> JStr ''restart_pod'' \<in> set (proposed_actions (analysis_of r))"
        and out: "out = Inr r"
      from hyp have "''restart_pod'' \<in> set (action_ids (proposed_actions (analysis_of r)))"
        by (simp add: action_ids_member)
      with hyp recorded [OF out] have "''restart_pod'' \<in> set (map fst (auto_executed r))"
        by (simp add: spec_may_auto_execute_def SAFE_ACTIONS_def)
      then obtain res where entry: "(''restart_pod'', res) \<in> set (auto_executed r)"
        by auto
      then have "filter (\<lambda>(a, res). a = ''restart_pod'') (auto_executed r) \<noteq> []"
        by (auto simp: filter_empty_conv)
      with count [OF out] muts have "acts \<noteq> []" by auto
      then obtain ev where ev: "ev \<in> set acts" by (cases acts) auto
      with deletes obtain pod where "ev = DeletePod pod ns" by blast
      with ev tr have "DeletePod pod ns \<in> set tr" by simp
      then show "\<exists>pod. DeletePod pod ns \<in> set tr" by blast
      from entry show "\<exists>res. (''restart_pod'', res) \<in> set (auto_executed r)" by blast
    qed
  qed
  from safety have writes: ?writes by (rule conjunct1)
  from safety have "?quiet \<and> ?results" by (rule conjunct2)
  then have quiet: ?quiet and results: ?results by (rule conjunct1, rule conjunct2)
  show ?thesis by (intro conjI writes quiet results live)
qed

subsection \<open>Concrete runs\<close>

lemma crashing_status:
  "get_pod_status crashing_cluster ns = ([ListPods ns], Inr [PodInfo ''web-1'' ''Running'' 5 False])"
  by (simp add: get_pod_status_def crashing_cluster_def pod_summary_def)

lemma crashing_logs:
  "get_pod_logs crashing_cluster pod ns = ([ReadLog pod ns], Inr ''OOMKilled'')"
  by (simp add: get_pod_logs_def crashing_cluster_def)

lemma healthy_status:
  "get_pod_status healthy_cluster ns = ([ListPods ns], Inr [PodInfo ''web-1'' ''Running'' 0 True])"
  by (simp add: get_pod_status_def healthy_cluster_def pod_summary_def)

lemma analyze_medium_on_crashing:
  "analyze crashing_cluster (proposing [''restart_pod'']) description ''medium'' ns
   = ([ListPods ns, ReadLog ''web-1'' ns, EngineCall Incident],
      Inr \<lparr>analysis_of = JObj [(''root_cause'', JStr ''out of memory''),
                                (''safe_actions'', JList [JStr ''restart_pod''])],
            total_pods = 1, unhealthy_pods = 1, auto_executed = []\<rparr>)"
  by (simp add: analyze_def crashing_status crashing_logs proposing_def
        run_remediations_not_high io_bind_def io_return_def)

lemma remediate_three_on_crashing:
  "run_remediations crashing_cluster ''high'' ns [PodInfo ''web-1'' ''Running'' 5 False]
     (JObj [(''root_cause'', JStr ''out of memory''),
            (''safe_actions'',
             JList [JStr ''drain_node'', JStr ''restart_pod'', JStr ''scale_up_deployment''])])
   = ([DeletePod ''web-1'' ns],
      Inr [(''restart_pod'', ''Pod web-1 deleted '' @ em_dash @ '' controller will recreate it''),
           (''scale_up_deployment'', skipped_message)])"
  by (simp add: run_remediations_def dict_get_def remediate_def restart_pod_def
        crashing_cluster_def io_bind_def io_return_def)

lemma analyze_three_on_crashing:
  "analyze crashing_cluster (proposing [''drain_node'', ''restart_pod'', ''scale_up_deployment''])
     ''pods crash'' ''high'' ''shop''
   = ([ListPods ''shop'', ReadLog ''web-1'' ''shop'', EngineCall Incident, DeletePod ''web-1'' ''shop''],
      Inr \<lparr>analysis_of =
              JObj [(''root_cause'', JStr ''out of memory''),
                    (''safe_actions'',
                     JList [JStr ''drain_node'', JStr ''restart_pod'', JStr ''scale_up_deployment''])],
            total_pods = 1, unhealthy_pods = 1,
            auto_executed =
              [(''restart_pod'', ''Pod web-1 deleted '' @ em_dash @ '' controller will recreate it''),
               (''scale_up_deployment'', skipped_message)]\<rparr>)"
  by (simp add: analyze_def crashing_status crashing_logs proposing_def
        remediate_three_on_crashing io_bind_def io_return_def)

lemma three_proposals:
  "action_ids (proposed_actions
     (JObj [(''root_cause'', JStr ''out of memory''),
            (''safe_actions'',
             JList [JStr ''drain_node'', JStr ''restart_pod'', JStr ''scale_up_deployment''])]))
   = [''drain_node'', ''restart_pod'', ''scale_up_deployment'']"
  by (simp add: proposed_actions_def dict_get_def)

theorem auto_execution_gate_witness:
  "fst (analyze crashing_cluster (proposing [''drain_node'', ''restart_pod'', ''scale_up_deployment''])
          ''pods crash'' ''high'' ''shop'')
     = [ListPods ''shop'', ReadLog ''web-1'' ''shop'', EngineCall Incident, DeletePod ''web-1'' ''shop'']
   \<and> (\<exists>r. snd (analyze crashing_cluster
                   (proposing [''drain_node'', ''restart_pod'', ''scale_up_deployment''])
                   ''pods crash'' ''high'' ''shop'') = Inr r
          \<and> 0 < unhealthy_pods r
          \<and> action_ids (proposed_actions (analysis_of r))
              = [''drain_node'', ''restart_pod'', ''scale_up_deployment'']
          \<and> map fst (auto_executed r) = [''restart_pod'', ''scale_up_deployment'']
          \<and> length (filter (\<lambda>(a, res). a = ''restart_pod'') (auto_executed r)) = 1)
   \<and> spec_may_auto_execute ''restart_pod'' ''high''
   \<and> spec_may_auto_execute ''scale_up_deployment'' ''high''
   \<and> \<not> spec_may_auto_execute ''drain_node'' ''high''
   \<and> fst (analyze crashing_cluster (proposing [''restart_pod'']) ''pods crash'' ''medium'' ''shop'')
     = [ListPods ''shop'', ReadLog ''web-1'' ''shop'', EngineCall Incident]
   \<and> (\<exists>r. snd (analyze crashing_cluster (proposing [''restart_pod'']) ''pods crash'' ''medium'' ''shop'')
              = Inr r
          \<and> auto_executed r = [])"
proof -
  let ?r = "\<lparr>analysis_of =
              JObj [(''root_cause'', JStr ''out of memory''),
                    (''safe_actions'',
                     JList [JStr ''drain_node'', JStr ''restart_pod'', JStr ''scale_up_deployment''])],
            total_pods = 1, unhealthy_pods = 1,
            auto_executed =
              [(''restart_pod'', ''Pod web-1 deleted '' @ em_dash @ '' controller will recreate it''),
               (''scale_up_deployment'', skipped_message)]\<rparr>"
  note high = auto_execution_gate [OF analyze_three_on_crashing]
  note medium = auto_execution_gate
    [OF analyze_medium_on_crashing [of "''pods crash''" "''shop''"]]
  have gate: "spec_may_auto_execute ''restart_pod'' ''high''"
    "spec_may_auto_execute ''scale_up_deployment'' ''high''"
    "\<not> spec_may_auto_execute ''drain_node'' ''high''"
    by (simp_all add: spec_may_auto_execute_def SAFE_ACTIONS_def)
  from high have "0 < unhealthy_pods ?r \<longrightarrow>
      map fst (auto_executed ?r)
      = filter (\<lambda>a. spec_may_auto_execute a ''high'') (action_ids (proposed_actions (analysis_of ?r)))"
    by blast
  then have entries: "map fst (auto_executed ?r) = [''restart_pod'', ''scale_up_deployment'']"
    using gate by (simp add: three_proposals)
  from high
  have "length (filter is_mutation
          [ListPods ''shop'', ReadLog ''web-1'' ''shop'', EngineCall Incident, DeletePod ''web-1'' ''shop''])
        = length (filter (\<lambda>(a, res). a = ''restart_pod'') (auto_executed ?r))"
    by blast
  then have one: "length (filter (\<lambda>(a, res). a = ''restart_pod'') (auto_executed ?r)) = 1"
    by simp
  from medium
  have quiet: "\<forall>r. Inr \<lparr>analysis_of = JObj [(''root_cause'', JStr ''out of memory''),
                                (''safe_actions'', JList [JStr ''restart_pod''])],
            total_pods = 1, unhealthy_pods = 1, auto_executed = []\<rparr> = Inr r \<longrightarrow>
          (''medium'' \<noteq> ''high'' \<longrightarrow> auto_executed r = [])"
    by blast
  have "\<exists>r. snd (analyze crashing_cluster
                   (proposing [''drain_node'', ''restart_pod'', ''scale_up_deployment''])
                   ''pods crash'' ''high'' ''shop'') = Inr r
          \<and> 0 < unhealthy_pods r
          \<and> action_ids (proposed_actions (analysis_of r))
              = [''drain_node'', ''restart_pod'', ''scale_up_deployment'']
          \<and> map fst (auto_executed r) = [''restart_pod'', ''scale_up_deployment'']
          \<and> length (filter (\<lambda>(a, res). a = ''restart_pod'') (auto_executed r)) = 1"
  proof (intro exI conjI)
    show "snd (analyze crashing_cluster
                   (proposing [''drain_node'', ''restart_pod'', ''scale_up_deployment''])
                   ''pods crash'' ''high'' ''shop'') = Inr ?r"
      by (simp add: analyze_three_on_crashing)
    show "0 < unhealthy_pods ?r" by simp
    show "action_ids (proposed_actions (analysis_of ?r))
              = [''drain_node'', ''restart_pod'', ''scale_up_deployment'']"
      by (simp add: three_proposals)
    show "map fst (auto_executed ?r) = [''restart_pod'', ''scale_up_deployment'']"
      by (rule entries)
    show "length (filter (\<lambda>(a, res). a = ''restart_pod'') (auto_executed ?r)) = 1"
      by (rule one)
  qed
  moreover have "\<exists>r. snd (analyze crashing_cluster (proposing [''restart_pod''])
                    ''pods crash'' ''medium'' ''shop'') = Inr r
          \<and> auto_executed r = []"
    using quiet by (simp add: analyze_medium_on_crashing)
  ultimately show ?thesis
    using gate by (simp add: analyze_three_on_crashing analyze_medium_on_crashing)
qed

text \<open>
  Claim C1 as stated fails in the direction from the gate to the execution, for one
  action.  Under severity \<open>high\<close> the allow-listed action \<open>scale_up_deployment\<close> passes
  the gate of the specification, yet nothing is executed: the run holds no write on the
  cluster, and the entry in the list says that the action was skipped.
\<close>

theorem allowlisted_scale_up_not_executed:
  "spec_may_auto_execute ''scale_up_deployment'' ''high''
   \<and> analyze crashing_cluster (proposing [''scale_up_deployment'']) ''pods crash'' ''high'' ''shop''
     = ([ListPods ''shop'', ReadLog ''web-1'' ''shop'', EngineCall Incident],
        Inr \<lparr>analysis_of = JObj [(''root_cause'', JStr ''out of memory''),
                                  (''safe_actions'', JList [JStr ''scale_up_deployment''])],
              total_pods = 1, unhealthy_pods = 1,
              auto_executed = [(''scale_up_deployment'', skipped_message)]\<rparr>)
   \<and> filter is_mutation
        (fst (analyze crashing_cluster (proposing [''scale_up_deployment''])
                ''pods crash'' ''high'' ''shop'')) = []"
proof -
  have run: "run_remediations crashing_cluster ''high'' ns [PodInfo ''web-1'' ''Running'' 5 False]
     (JObj [(''root_cause'', JStr ''out of memory''),
            (''safe_actions'', JList [JStr ''scale_up_deployment''])])
   = ([], Inr [(''scale_up_deployment'', skipped_message)])" for ns
    by (simp add: run_remediations_def dict_get_def remediate_def io_bind_def io_return_def)
  have "analyze crashing_cluster (proposing [''scale_up_deployment'']) ''pods crash'' ''high'' ''shop''
     = ([ListPods ''shop'', ReadLog ''web-1'' ''shop'', EngineCall Incident],
        Inr \<lparr>analysis_of = JObj [(''root_cause'', JStr ''out of memory''),
                                  (''safe_actions'', JList [JStr ''scale_up_deployment''])],
              total_pods = 1, unhealthy_pods = 1,
              auto_executed = [(''scale_up_deployment'', skipped_message)]\<rparr>)"
    by (simp add: analyze_def crashing_status crashing_logs proposing_def run
          io_bind_def io_return_def)
  then show ?thesis
    by (simp add: spec_may_auto_execute_def SAFE_ACTIONS_def)
qed

text \<open>
  Claim C2.  A proposed action that the gate approves but that lacks a parameter ought
  to be recorded as skipped.  The source does so for \<open>scale_up_deployment\<close>; for
  \<open>restart_pod\<close> with no unhealthy pod it records nothing: under severity \<open>high\<close>, on
  a cluster whose pods are healthy, the proposal \<open>restart_pod\<close> leaves the list of
  executed actions empty, while \<open>scale_up_deployment\<close> leaves its skipped entry.
\<close>

theorem restart_without_unhealthy_pod_dropped:
  "spec_may_auto_execute ''restart_pod'' ''high''
   \<and> analyze healthy_cluster (proposing [''restart_pod'']) ''slow pages'' ''high'' ''shop''
     = ([ListPods ''shop'', EngineCall Incident],
        Inr \<lparr>analysis_of = JObj [(''root_cause'', JStr ''out of memory''),
                                  (''safe_actions'', JList [JStr ''restart_pod''])],
              total_pods = 1, unhealthy_pods = 0, auto_executed = []\<rparr>)
   \<and> analyze healthy_cluster (proposing [''scale_up_deployment'']) ''slow pages'' ''high'' ''shop''
     = ([ListPods ''shop'', EngineCall Incident],
        Inr \<lparr>analysis_of = JObj [(''root_cause'', JStr ''out of memory''),
                                  (''safe_actions'', JList [JStr ''scale_up_deployment''])],
              total_pods = 1, unhealthy_pods = 0,
              auto_executed = [(''scale_up_deployment'', skipped_message)]\<rparr>)"
proof -
  have restart: "run_remediations healthy_cluster ''high'' ns []
     (JObj [(''root_cause'', JStr ''out of memory''), (''safe_actions'', JList [JStr ''restart_pod''])])
   = ([], Inr [])" for ns
    by (simp add: run_remediations_def dict_get_def remediate_def io_bind_def io_return_def)
  have scale: "run_remediations healthy_cluster ''high'' ns []
     (JObj [(''root_cause'', JStr ''out of memory''),
            (''safe_actions'', JList [JStr ''scale_up_deployment''])])
   = ([], Inr [(''scale_up_deployment'', skipped_message)])" for ns
    by (simp add: run_remediations_def dict_get_def remediate_def io_bind_def io_return_def)
  show ?thesis
    by (simp add: analyze_def healthy_status proposing_def restart scale
          io_bind_def io_return_def spec_may_auto_execute_def SAFE_ACTIONS_def)
qed

section \<open>The orchestrator\<close>

subsection \<open>Classification with retry\<close>

lemma wait_exponential_values:
  "wait_exponential 1 = 1" "wait_exponential 2 = 2" "wait_exponential (Suc 0) = Suc 0"
  by (simp_all add: wait_exponential_def)

lemma wait_exponential_bounds:
  "1 \<le> wait_exponential n" "wait_exponential n \<le> 10"
  by (simp_all add: wait_exponential_def)

lemma wait_exponential_doubles:
  assumes "1 \<le> n"
  shows "wait_exponential (Suc n) = min 10 (2 * wait_exponential n)"
proof -
  from assms obtain m where n: "n = Suc m" by (cases n) auto
  have "(1::nat) \<le> 2 ^ m" by simp
  then show ?thesis
    unfolding n wait_exponential_def by (simp add: max_def min_def)
qed

lemma retry_success:
  assumes "body n = (tr, Inr v)"
  shows "retry body n = (tr, Inr v)"
  using assms by (subst retry.simps) simp

lemma retry_exhausted:
  assumes "body n = (tr, Inl e)" and "stop_after_attempt \<le> n"
  shows "retry body n = (tr, Inl ClassificationUnavailable)"
  using assms by (subst retry.simps) simp

lemma retry_again:
  assumes "body n = (tr, Inl e)" and "n < stop_after_attempt"
  shows "retry body n
       = (tr @ Sleep (wait_exponential n) # fst (retry body (n + 1)), snd (retry body (n + 1)))"
  using assms by (subst retry.simps) (simp add: split_beta)

lemma classify_attempt_trace:
  "fst (classify_attempt w text n) = [EngineCall Classifier]"
  by (simp add: classify_attempt_def)

lemma classify_attempt_eq:
  "classify_attempt w text n = ([EngineCall Classifier], snd (classify_attempt w text n))"
  by (simp add: classify_attempt_def)

text \<open>Every run of the classifier, by the outcomes of its attempts.\<close>

lemma classify_intent_unfold:
  "classify_intent w text =
     (case snd (classify_attempt w text 1) of
        Inr intent \<Rightarrow> ([EngineCall Classifier], Inr intent)
      | Inl e1 \<Rightarrow>
          (case snd (classify_attempt w text 2) of
             Inr intent \<Rightarrow> ([EngineCall Classifier, Sleep 1, EngineCall Classifier], Inr intent)
           | Inl e2 \<Rightarrow>
               (case snd (classify_attempt w text 3) of
                  Inr intent \<Rightarrow>
                    ([EngineCall Classifier, Sleep 1, EngineCall Classifier, Sleep 2,
                      EngineCall Classifier], Inr intent)
                | Inl e3 \<Rightarrow>
                    ([EngineCall Classifier, Sleep 1, EngineCall Classifier, Sleep 2,
                      EngineCall Classifier], Inl ClassificationUnavailable))))"
proof -
  let ?body = "classify_attempt w text"
  have third: "retry ?body 3 =
      (case snd (?body 3) of
         Inr intent \<Rightarrow> ([EngineCall Classifier], Inr intent)
       | Inl e \<Rightarrow> ([EngineCall Classifier], Inl ClassificationUnavailable))"
  proof (cases "snd (?body 3)")
    case (Inl e)
    with classify_attempt_eq [of w "text" 3] have "?body 3 = ([EngineCall Classifier], Inl e)" by simp
    from retry_exhausted [of "?body" 3, OF this] Inl show ?thesis by (simp add: stop_after_attempt_def)
  next
    case (Inr v)
    with classify_attempt_eq [of w "text" 3] have "?body 3 = ([EngineCall Classifier], Inr v)" by simp
    from retry_success [of "?body" 3, OF this] Inr show ?thesis by simp
  qed
  have second: "retry ?body 2 =
      (case snd (?body 2) of
         Inr intent \<Rightarrow> ([EngineCall Classifier], Inr intent)
       | Inl e \<Rightarrow> (EngineCall Classifier # Sleep 2 # fst (retry ?body 3), snd (retry ?body 3)))"
  proof (cases "snd (?body 2)")
    case (Inl e)
    with classify_attempt_eq [of w "text" 2] have "?body 2 = ([EngineCall Classifier], Inl e)" by simp
    from retry_again [of "?body" 2, OF this] Inl show ?thesis
      by (simp add: stop_after_attempt_def wait_exponential_values)
  next
    case (Inr v)
    with classify_attempt_eq [of w "text" 2] have "?body 2 = ([EngineCall Classifier], Inr v)" by simp
    from retry_success [of "?body" 2, OF this] Inr show ?thesis by simp
  qed
  have first: "retry ?body 1 =
      (case snd (?body 1) of
         Inr intent \<Rightarrow> ([EngineCall Classifier], Inr intent)
       | Inl e \<Rightarrow> (EngineCall Classifier # Sleep 1 # fst (retry ?body 2), snd (retry ?body 2)))"
  proof (cases "snd (?body 1)")
    case (Inl e)
    with classify_attempt_eq [of w "text" 1] have "?body 1 = ([EngineCall Classifier], Inl e)" by simp
    from retry_again [of "?body" 1, OF this] Inl show ?thesis
      by (simp add: stop_after_attempt_def wait_exponential_values numeral_2_eq_2)
  next
    case (Inr v)
    with classify_attempt_eq [of w "text" 1] have "?body 1 = ([EngineCall Classifier], Inr v)" by simp
    from retry_success [of "?body" 1, OF this] Inr show ?thesis by simp
  qed
  show ?thesis
    unfolding classify_intent_def first second third
    by (simp split: sum.splits)
qed

lemma classify_intent_traces:
  "fst (classify_intent w text)
     \<in> {[EngineCall Classifier],
        [EngineCall Classifier, Sleep 1, EngineCall Classifier],
        [EngineCall Classifier, Sleep 1, EngineCall Classifier, Sleep 2, EngineCall Classifier]}"
  unfolding classify_intent_unfold by (simp split: sum.splits)

lemma classify_intent_quiet:
  "filter is_mutation (fst (classify_intent w text)) = []"
  "length (filter is_engine_call (fst (classify_intent w text))) \<le> 3"
  "1 \<le> length (filter is_engine_call (fst (classify_intent w text)))"
  "\<forall>ev \<in> set (fst (classify_intent w text)). ev = EngineCall Classifier \<or> (\<exists>n. ev = Sleep n)"
  using classify_intent_traces [of w "text"] by auto

lemma classify_intent_normalized:
  assumes "snd (classify_intent w text) = Inr intent"
  shows "\<exists>n content. n \<in> {1, 2, 3} \<and> classify_reply w n text = Inr (Some content)
           \<and> intent = lower (str_lower w) (strip content)"
proof -
  have attempt: "\<exists>content. classify_reply w n text = Inr (Some content) \<and> v = lower (str_lower w) (strip content)"
    if "snd (classify_attempt w text n) = Inr v" for n v
    using that by (auto simp: classify_attempt_def split: sum.splits option.splits)
  from assms have "snd (classify_attempt w text 1) = Inr intent
      \<or> snd (classify_attempt w text 2) = Inr intent \<or> snd (classify_attempt w text 3) = Inr intent"
    unfolding classify_intent_unfold by (simp split: sum.splits)
  with attempt show ?thesis by blast
qed


subsection \<open>The handlers and the dispatch\<close>

lemma analyze_engine_calls:
  "length (filter is_engine_call (fst (analyze b engine description severity ns))) \<le> 1"
proof -
  obtain tr out where run: "analyze b engine description severity ns = (tr, out)"
    by (cases "analyze b engine description severity ns")
  from analyze_run [OF run] have "length (filter is_engine_call tr) \<le> 1"
  proof (elim disjE exE conjE)
    fix reads acts unhealthy analysis outcome
    assume tr: "tr = reads @ acts" and reads: "length (filter is_engine_call reads) \<le> 1"
      and rem: "run_remediations b severity ns unhealthy analysis = (acts, outcome)"
    from run_remediations_run [OF rem, THEN conjunct1]
    have "\<forall>ev \<in> set acts. \<not> is_engine_call ev" by auto
    then have "filter is_engine_call acts = []" by (rule filter_none)
    with tr reads show ?thesis by simp
  qed
  with run show ?thesis by simp
qed

lemma analyze_not_high:
  assumes "severity \<noteq> ''high''"
  shows "filter is_mutation (fst (analyze b engine description severity ns)) = []"
    and "snd (analyze b engine description severity ns) = Inr r \<Longrightarrow> auto_executed r = []"
proof -
  obtain tr out where run: "analyze b engine description severity ns = (tr, out)"
    by (cases "analyze b engine description severity ns")
  from analyze_run [OF run]
  have "filter is_mutation tr = [] \<and> (\<forall>r. out = Inr r \<longrightarrow> auto_executed r = [])"
  proof (elim disjE exE conjE)
    fix reads acts unhealthy analysis outcome
    assume tr: "tr = reads @ acts" and reads: "filter is_mutation reads = []"
      and rem: "run_remediations b severity ns unhealthy analysis = (acts, outcome)"
      and res: "\<forall>r. out = Inr r \<longrightarrow> outcome = Inr (auto_executed r)"
    from rem run_remediations_not_high [OF assms, of b ns unhealthy analysis]
    have "acts = []" "outcome = Inr []" by simp_all
    with tr reads res show ?thesis by simp
  next
    fix e assume "filter is_mutation tr = []" "out = Inl e"
    then show ?thesis by simp
  qed
  with run show "filter is_mutation (fst (analyze b engine description severity ns)) = []"
    and "snd (analyze b engine description severity ns) = Inr r \<Longrightarrow> auto_executed r = []"
    by simp_all
qed

lemma optimize_trace:
  "fst (optimize parse engine repo content) = []
   \<or> fst (optimize parse engine repo content) = [EngineCall Pipeline]"
proof (cases "parse content")
  case (Inl e)
  then show ?thesis by (simp add: optimize_def)
next
  case parsed: (Inr a)
  show ?thesis
  proof (cases "engine repo content")
    case (Inl e)
    with parsed show ?thesis by (simp add: optimize_def io_bind_def)
  next
    case (Inr reply)
    show ?thesis
    proof (cases reply)
      case (JObj kvs)
      with parsed Inr show ?thesis
        by (simp add: optimize_def io_bind_def io_return_def Let_def split: sum.splits)
    qed (use parsed Inr in \<open>simp_all add: optimize_def io_bind_def io_raise_def\<close>)
  qed
qed

lemma io_map_fst [simp]: "fst (io_map f m) = fst m"
  by (simp add: io_map_def split: prod.splits sum.splits)

lemma io_map_result:
  "snd (io_map f m) = Inr y \<longleftrightarrow> (\<exists>x. snd m = Inr x \<and> y = f x)"
  by (auto simp: io_map_def split: prod.splits sum.splits)

lemma io_bind_fst:
  "fst (io_bind m f) = fst m @ (case snd m of Inl e \<Rightarrow> [] | Inr x \<Rightarrow> fst (f x))"
  by (simp add: io_bind_def split: prod.splits sum.splits)

lemma io_bind_snd:
  "snd (io_bind m f) = (case snd m of Inl e \<Rightarrow> Inl e | Inr x \<Rightarrow> snd (f x))"
  by (simp add: io_bind_def split: prod.splits sum.splits)

lemma route_dispatch:
  "route w text = io_bind (classify_intent w text) (dispatch w text)"
proof -
  have "(case map_of (handlers w text) intent of
          None \<Rightarrow> io_return (UnknownIntent (''Unknown intent: '' @ intent)
                               (map fst (handlers w text)))
        | Some handler \<Rightarrow> handler ()) = dispatch w text intent" for intent
    by (simp add: handlers_def dispatch_def)
  then show ?thesis by (simp add: route_def)
qed

lemma dispatch_quiet:
  "filter is_mutation (fst (dispatch w text intent)) = []"
proof -
  have "filter is_mutation (fst (handle_incident w text ''medium'' ''default'')) = []"
    unfolding handle_incident_def by (rule analyze_not_high) simp
  moreover have "filter is_mutation (fst (handle_infrastructure w text ''staging'' True)) = []"
    by (simp add: handle_infrastructure_def plan_def)
  moreover have "filter is_mutation (fst (handle_pipeline w [] text)) = []"
    using optimize_trace [of "parse_workflow w" "pipeline_reply w" "[]" "text"]
    by (auto simp: handle_pipeline_def)
  ultimately show ?thesis by (simp add: dispatch_def io_return_def)
qed

lemma dispatch_incident_result:
  assumes "snd (dispatch w text intent) = Inr (IncidentResult r)"
  shows "auto_executed r = []"
proof -
  from assms have "snd (handle_incident w text ''medium'' ''default'') = Inr r"
    by (auto simp: dispatch_def io_map_result io_return_def split: if_splits)
  then show ?thesis
    unfolding handle_incident_def by (rule analyze_not_high(2) [rotated]) simp
qed


subsection \<open>The claims on the orchestrator\<close>

text \<open>
  Claim C4.  The classifier calls the engine at least once and at most three times.
  The pause starts at 1 time unit, doubles, and never exceeds 10.  When the first two
  attempts fail and the third succeeds, its intent is returned after exactly three
  calls and the two pauses; when all three attempts fail, the classifier fails with
  \<open>ClassificationUnavailable\<close> after exactly three calls.  No handler retries: each
  calls the engine once at most.
\<close>

theorem classify_retry:
  "1 \<le> length (filter is_engine_call (fst (classify_intent w text)))
   \<and> length (filter is_engine_call (fst (classify_intent w text))) \<le> 3
   \<and> wait_exponential 1 = 1
   \<and> (\<forall>n. 1 \<le> n \<longrightarrow> wait_exponential n \<le> 10
          \<and> wait_exponential (Suc n) = min 10 (2 * wait_exponential n))
   \<and> (\<forall>e1 e2 intent.
          snd (classify_attempt w text 1) = Inl e1 \<and> snd (classify_attempt w text 2) = Inl e2
          \<and> snd (classify_attempt w text 3) = Inr intent \<longrightarrow>
          classify_intent w text
          = ([EngineCall Classifier, Sleep (wait_exponential 1), EngineCall Classifier,
              Sleep (wait_exponential 2), EngineCall Classifier], Inr intent))
   \<and> ((\<forall>n \<in> {1, 2, 3}. \<exists>e. snd (classify_attempt w text n) = Inl e) \<longrightarrow>
          classify_intent w text
          = ([EngineCall Classifier, Sleep (wait_exponential 1), EngineCall Classifier,
              Sleep (wait_exponential 2), EngineCall Classifier], Inl ClassificationUnavailable))
   \<and> length (filter is_engine_call (fst (handle_incident w description severity ns))) \<le> 1
   \<and> fst (handle_infrastructure w request environment dry_run) = [EngineCall Infrastructure]
   \<and> length (filter is_engine_call (fst (handle_pipeline w repo workflow_content))) \<le> 1"
proof (intro conjI allI impI)
  show "1 \<le> length (filter is_engine_call (fst (classify_intent w text)))"
    by (rule classify_intent_quiet)
  show "length (filter is_engine_call (fst (classify_intent w text))) \<le> 3"
    by (rule classify_intent_quiet)
  show "wait_exponential 1 = 1"
    by (rule wait_exponential_values)
  show "wait_exponential n \<le> 10" for n
    by (rule wait_exponential_bounds)
  show "wait_exponential (Suc n) = min 10 (2 * wait_exponential n)" if "1 \<le> n" for n
    using that by (rule wait_exponential_doubles)
  show "classify_intent w text
          = ([EngineCall Classifier, Sleep (wait_exponential 1), EngineCall Classifier,
              Sleep (wait_exponential 2), EngineCall Classifier], Inr intent)"
    if "snd (classify_attempt w text 1) = Inl e1 \<and> snd (classify_attempt w text 2) = Inl e2
          \<and> snd (classify_attempt w text 3) = Inr intent" for e1 e2 intent
    using that by (simp add: classify_intent_unfold wait_exponential_values)
  show "classify_intent w text
          = ([EngineCall Classifier, Sleep (wait_exponential 1), EngineCall Classifier,
              Sleep (wait_exponential 2), EngineCall Classifier], Inl ClassificationUnavailable)"
    if "\<forall>n \<in> {1, 2, 3}. \<exists>e. snd (classify_attempt w text n) = Inl e"
  proof -
    from that obtain e1 e2 e3 where "snd (classify_attempt w text 1) = Inl e1"
      "snd (classify_attempt w text 2) = Inl e2" "snd (classify_attempt w text 3) = Inl e3"
      by auto
    then show ?thesis by (simp add: classify_intent_unfold wait_exponential_values)
  qed
  show "length (filter is_engine_call (fst (handle_incident w description severity ns))) \<le> 1"
    unfolding handle_incident_def by (rule analyze_engine_calls)
  show "fst (handle_infrastructure w request environment dry_run) = [EngineCall Infrastructure]"
    by (simp add: handle_infrastructure_def plan_def)
  show "length (filter is_engine_call (fst (handle_pipeline w repo workflow_content))) \<le> 1"
    using optimize_trace [of "parse_workflow w" "pipeline_reply w" repo workflow_content]
    by (auto simp: handle_pipeline_def)
qed

lemma strip_blanks:
  "strip '' Incident '' = ''Incident''" "strip '' Deploy '' = ''Deploy''"
  by (simp_all add: strip_def is_space_def ascii_space_def is_continuation_def)

lemma normalize_incident: "lower u (strip '' Incident '') = ''incident''"
  by (simp add: strip_blanks lower_ascii is_ascii_def lower_char_def)

lemma normalize_deploy: "lower u (strip '' Deploy '') = ''deploy''"
  by (simp add: strip_blanks lower_ascii is_ascii_def lower_char_def)

lemma attempts_twice_failing:
  "snd (classify_attempt (answering (twice_failing '' Incident '')) t 1) = Inl (EngineFailure ''timeout'')"
  "snd (classify_attempt (answering (twice_failing '' Incident '')) t 2) = Inl (EngineFailure ''timeout'')"
  "snd (classify_attempt (answering (twice_failing '' Incident '')) t 3) = Inr ''incident''"
  by (simp_all add: classify_attempt_def answering_def twice_failing_def normalize_incident)

lemma attempts_always_failing:
  "snd (classify_attempt (answering always_failing) t n) = Inl (EngineFailure ''timeout'')"
  by (simp add: classify_attempt_def answering_def always_failing_def)

theorem classify_retry_witness:
  "classify_intent (answering (twice_failing '' Incident '')) ''pods crash''
     = ([EngineCall Classifier, Sleep 1, EngineCall Classifier, Sleep 2, EngineCall Classifier],
        Inr ''incident'')
   \<and> classify_intent (answering always_failing) ''pods crash''
     = ([EngineCall Classifier, Sleep 1, EngineCall Classifier, Sleep 2, EngineCall Classifier],
        Inl ClassificationUnavailable)
   \<and> length (filter is_engine_call
        (fst (classify_intent (answering always_failing) ''pods crash''))) \<le> 3"
proof -
  note flaky = classify_retry [of "answering (twice_failing '' Incident '')" "''pods crash''"]
  note dead = classify_retry [of "answering always_failing" "''pods crash''"]
  have "classify_intent (answering (twice_failing '' Incident '')) ''pods crash''
     = ([EngineCall Classifier, Sleep 1, EngineCall Classifier, Sleep 2, EngineCall Classifier],
        Inr ''incident'')"
    using flaky attempts_twice_failing [of "''pods crash''"]
    by (simp add: wait_exponential_def)
  moreover have "classify_intent (answering always_failing) ''pods crash''
     = ([EngineCall Classifier, Sleep 1, EngineCall Classifier, Sleep 2, EngineCall Classifier],
        Inl ClassificationUnavailable)"
    using dead attempts_always_failing [of "''pods crash''"]
    by (simp add: wait_exponential_def)
  ultimately show ?thesis using dead by simp
qed

text \<open>
  Claim C5.  When the classifier returns an intent, which is the reply of the engine
  trimmed and lower-cased, and that intent is none of \<open>incident\<close>, \<open>infrastructure\<close>
  and \<open>pipeline\<close>, then \<open>route\<close> returns a value that names the three supported
  categories; it raises nothing, and its events are those of the classification only,
  so that no handler was dispatched.
\<close>

theorem route_unknown_intent:
  assumes "classify_intent w text = (tr, Inr intent)"
    and "intent \<notin> {''incident'', ''infrastructure'', ''pipeline''}"
  shows "route w text
         = (tr, Inr (UnknownIntent (''Unknown intent: '' @ intent)
                       [''incident'', ''infrastructure'', ''pipeline'']))
       \<and> (\<forall>ev \<in> set tr. ev = EngineCall Classifier \<or> (\<exists>n. ev = Sleep n))
       \<and> (\<exists>n content. n \<in> {1, 2, 3} \<and> classify_reply w n text = Inr (Some content)
             \<and> intent = lower (str_lower w) (strip content))"
proof (intro conjI)
  from assms show "route w text
         = (tr, Inr (UnknownIntent (''Unknown intent: '' @ intent)
                       [''incident'', ''infrastructure'', ''pipeline'']))"
    by (simp add: route_dispatch dispatch_def io_bind_def io_return_def)
  from classify_intent_quiet(4) [of w "text"] assms(1)
  show "\<forall>ev \<in> set tr. ev = EngineCall Classifier \<or> (\<exists>n. ev = Sleep n)" by simp
  from assms(1) have "snd (classify_intent w text) = Inr intent" by simp
  then show "\<exists>n content. n \<in> {1, 2, 3} \<and> classify_reply w n text = Inr (Some content)
             \<and> intent = lower (str_lower w) (strip content)"
    by (rule classify_intent_normalized)
qed

theorem route_unknown_intent_witness:
  "classify_intent (answering (\<lambda>attempt. Inr (Some '' Deploy ''))) ''deploy the shop''
     = ([EngineCall Classifier], Inr ''deploy'')
   \<and> route (answering (\<lambda>attempt. Inr (Some '' Deploy ''))) ''deploy the shop''
     = ([EngineCall Classifier],
        Inr (UnknownIntent ''Unknown intent: deploy'' [''incident'', ''infrastructure'', ''pipeline'']))"
proof -
  have classified: "classify_intent (answering (\<lambda>attempt. Inr (Some '' Deploy ''))) ''deploy the shop''
     = ([EngineCall Classifier], Inr ''deploy'')"
    by (simp add: classify_intent_unfold classify_attempt_def answering_def normalize_deploy)
  have unknown: "''deploy'' \<notin> {''incident'', ''infrastructure'', ''pipeline''}"
    by simp
  from route_unknown_intent [OF classified unknown] classified show ?thesis by simp
qed

text \<open>
  Claim C10.  A request that enters through \<open>route\<close> never writes on the cluster, and
  the list of executed actions of an incident result is empty, for every text and
  whatever the engines answer: an incident is dispatched with severity \<open>medium\<close> and
  namespace \<open>default\<close>.
\<close>

theorem route_never_auto_executes:
  "filter is_mutation (fst (route w text)) = []
   \<and> (\<forall>r. snd (route w text) = Inr (IncidentResult r) \<longrightarrow> auto_executed r = [])
   \<and> (\<forall>tr. classify_intent w text = (tr, Inr ''incident'') \<longrightarrow>
          route w text
          = io_bind (tr, Inr ''incident'') (\<lambda>intent.
              io_map IncidentResult
                (analyze (cluster w) (incident_reply w) text ''medium'' ''default'')))"
proof (intro conjI allI impI)
  show "filter is_mutation (fst (route w text)) = []"
    by (simp add: route_dispatch io_bind_fst classify_intent_quiet dispatch_quiet
          split: sum.splits)
next
  fix r assume "snd (route w text) = Inr (IncidentResult r)"
  then obtain intent where "snd (dispatch w text intent) = Inr (IncidentResult r)"
    by (auto simp: route_dispatch io_bind_snd split: sum.splits)
  then show "auto_executed r = []" by (rule dispatch_incident_result)
next
  fix tr assume "classify_intent w text = (tr, Inr ''incident'')"
  then show "route w text
          = io_bind (tr, Inr ''incident'') (\<lambda>intent.
              io_map IncidentResult
                (analyze (cluster w) (incident_reply w) text ''medium'' ''default''))"
    by (simp add: route_dispatch dispatch_def handle_incident_def io_bind_def)
qed

theorem route_never_auto_executes_witness:
  "route (answering (twice_failing '' Incident '')) ''pods crash''
     = ([EngineCall Classifier, Sleep 1, EngineCall Classifier, Sleep 2, EngineCall Classifier,
         ListPods ''default'', ReadLog ''web-1'' ''default'', EngineCall Incident],
        Inr (IncidentResult
              \<lparr>analysis_of = JObj [(''root_cause'', JStr ''out of memory''),
                                   (''safe_actions'', JList [JStr ''restart_pod''])],
               total_pods = 1, unhealthy_pods = 1, auto_executed = []\<rparr>))
   \<and> filter is_mutation (fst (route (answering (twice_failing '' Incident '')) ''pods crash'')) = []"
proof -
  let ?w = "answering (twice_failing '' Incident '')"
  have classified: "classify_intent ?w ''pods crash''
     = ([EngineCall Classifier, Sleep 1, EngineCall Classifier, Sleep 2, EngineCall Classifier],
        Inr ''incident'')"
    using attempts_twice_failing [of "''pods crash''"] by (simp add: classify_intent_unfold)
  have parts: "cluster ?w = crashing_cluster" "incident_reply ?w = proposing [''restart_pod'']"
    by (simp_all add: answering_def)
  note never = route_never_auto_executes [of ?w "''pods crash''"]
  from never classified
  have "route ?w ''pods crash''
          = io_bind ([EngineCall Classifier, Sleep 1, EngineCall Classifier, Sleep 2,
                      EngineCall Classifier], Inr ''incident'') (\<lambda>intent.
              io_map IncidentResult
                (analyze (cluster ?w) (incident_reply ?w) ''pods crash'' ''medium'' ''default''))"
    by blast
  then have "route ?w ''pods crash''
     = ([EngineCall Classifier, Sleep 1, EngineCall Classifier, Sleep 2, EngineCall Classifier,
         ListPods ''default'', ReadLog ''web-1'' ''default'', EngineCall Incident],
        Inr (IncidentResult
              \<lparr>analysis_of = JObj [(''root_cause'', JStr ''out of memory''),
                                   (''safe_actions'', JList [JStr ''restart_pod''])],
               total_pods = 1, unhealthy_pods = 1, auto_executed = []\<rparr>))"
    by (simp add: parts analyze_medium_on_crashing io_bind_def io_map_def)
  with never show ?thesis by simp
qed

section \<open>The quick-win detector\<close>

lemma job_suggestions_caching:
  "filter (\<lambda>s. s_type s = ''caching'') (job_suggestions n (name, j))
   = (if has_cache j then []
      else [\<lparr>s_type = ''caching'', s_job = name, s_impact = ''high'',
              s_description = NoCaching name\<rparr>])"
  by (simp add: job_suggestions_def)

lemma job_suggestions_not_workflow:
  "filter (\<lambda>s. s_type s = ''parallelization'' \<and> s_impact s = ''high'')
     (job_suggestions n (name, j)) = []"
  by (simp add: job_suggestions_def)

text \<open>
  Claim C9.  For a workflow of exactly two jobs, neither of which has a caching step or
  declares a dependency, the detector yields the suggestions of the first job, those of
  the second, and last the one suggestion at workflow scope, which names both jobs as
  running in parallel already; among them are exactly two \<open>caching\<close> suggestions of
  impact \<open>high\<close>, one per job, and exactly one \<open>parallelization\<close> suggestion of
  impact \<open>high\<close>, the one for the workflow.
\<close>

theorem quick_wins_two_independent_jobs:
  assumes "\<not> has_cache j1" and "\<not> has_cache j2"
    and "\<not> truthy (needs j1)" and "\<not> truthy (needs j2)"
  shows "detect_quick_wins (Analysis 2 [(n1, j1), (n2, j2)] triggers)
         = job_suggestions 2 (n1, j1) @ job_suggestions 2 (n2, j2)
           @ [\<lparr>s_type = ''parallelization'', s_job = ''workflow'', s_impact = ''high'',
                s_description = AlreadyParallel [n1, n2]\<rparr>]
       \<and> filter (\<lambda>s. s_type s = ''caching'')
            (detect_quick_wins (Analysis 2 [(n1, j1), (n2, j2)] triggers))
         = [\<lparr>s_type = ''caching'', s_job = n1, s_impact = ''high'', s_description = NoCaching n1\<rparr>,
            \<lparr>s_type = ''caching'', s_job = n2, s_impact = ''high'', s_description = NoCaching n2\<rparr>]
       \<and> filter (\<lambda>s. s_type s = ''parallelization'' \<and> s_impact s = ''high'')
            (detect_quick_wins (Analysis 2 [(n1, j1), (n2, j2)] triggers))
         = [\<lparr>s_type = ''parallelization'', s_job = ''workflow'', s_impact = ''high'',
              s_description = AlreadyParallel [n1, n2]\<rparr>]"
proof -
  have whole: "detect_quick_wins (Analysis 2 [(n1, j1), (n2, j2)] triggers)
         = job_suggestions 2 (n1, j1) @ job_suggestions 2 (n2, j2)
           @ [\<lparr>s_type = ''parallelization'', s_job = ''workflow'', s_impact = ''high'',
                s_description = AlreadyParallel [n1, n2]\<rparr>]"
    using assms(3,4) by (simp add: detect_quick_wins_def)
  show ?thesis
    unfolding whole using assms(1,2)
    by (simp add: job_suggestions_caching job_suggestions_not_workflow)
qed

theorem quick_wins_two_independent_jobs_witness:
  "filter (\<lambda>s. s_type s = ''caching'') (detect_quick_wins two_jobs)
     = [\<lparr>s_type = ''caching'', s_job = ''build'', s_impact = ''high'',
          s_description = NoCaching ''build''\<rparr>,
        \<lparr>s_type = ''caching'', s_job = ''test'', s_impact = ''high'',
          s_description = NoCaching ''test''\<rparr>]
   \<and> filter (\<lambda>s. s_type s = ''parallelization'' \<and> s_impact s = ''high'')
        (detect_quick_wins two_jobs)
     = [\<lparr>s_type = ''parallelization'', s_job = ''workflow'', s_impact = ''high'',
          s_description = AlreadyParallel [''build'', ''test'']\<rparr>]
   \<and> map s_type (detect_quick_wins two_jobs)
     = [''caching'', ''artifacts'', ''caching'', ''artifacts'', ''parallelization'']"
proof -
  have plain: "\<not> has_cache plain_job" "\<not> truthy (needs plain_job)"
    by (simp_all add: plain_job_def)
  note two = quick_wins_two_independent_jobs
    [OF plain(1) plain(1) plain(2) plain(2), of "''build''" "''test''" "[''push'']"]
  have each: "map s_type (job_suggestions 2 (n, plain_job)) = [''caching'', ''artifacts'']" for n
    by (simp add: job_suggestions_def plain_job_def)
  have types: "map s_type (detect_quick_wins
                 (Analysis 2 [(''build'', plain_job), (''test'', plain_job)] [''push'']))
     = [''caching'', ''artifacts'', ''caching'', ''artifacts'', ''parallelization'']"
    unfolding two [THEN conjunct1] by (simp add: each)
  from two [THEN conjunct2, THEN conjunct1] two [THEN conjunct2, THEN conjunct2] types
  show ?thesis unfolding two_jobs_def by (intro conjI)
qed

end
